(* ===== verification/Prelude.thy ===== *)
theory Prelude
  imports Main "HOL-Library.Word"
begin

text \<open>
  Shared vocabulary of the development: machine integers, the outcomes of a Go call, error
  returns, big-endian encoding (\<open>encoding/binary\<close>), Go's truncating division and
  saturating time differences, and the generic list lemmas that several components use.
  \<^item> \<open>'a go\<close> is the outcome of a Go call that may not return normally: \<open>Ret x\<close>,
    \<open>Panic\<close> (a run-time panic) or \<open>Block\<close> (the goroutine waits for another one).
  \<^item> \<open>'e + 'a\<close> is a Go pair \<open>(value, error)\<close>: \<open>Inl\<close> the error, \<open>Inr\<close> the value.
  \<^item> the locale \<open>fixed_codec\<close> is the interface between a field encoder and the decoders
    that are built from it; the big-endian integers are its first interpretations.
\<close>

unbundle bit_operations_syntax

named_theorems go_simps \<open>unfolding of the outcome and error combinators\<close>
named_theorems codec_simps \<open>round trips and lengths of the encoders\<close>

type_synonym byte = "8 word"
type_synonym u8 = "8 word"
type_synonym u16 = "16 word"
type_synonym u32 = "32 word"

section \<open>Outcomes of Go code\<close>

datatype 'a go = Ret 'a | Panic | Block

fun bindG :: "'a go \<Rightarrow> ('a \<Rightarrow> 'b go) \<Rightarrow> 'b go" where
  "bindG (Ret x) f = f x"
| "bindG Panic f = Panic"
| "bindG Block f = Block"

fun mapG :: "('a \<Rightarrow> 'b) \<Rightarrow> 'a go \<Rightarrow> 'b go" where
  "mapG f (Ret x) = Ret (f x)"
| "mapG f Panic = Panic"
| "mapG f Block = Block"

lemma bindG_eq_Ret [go_simps]: "bindG m f = Ret y \<longleftrightarrow> (\<exists>x. m = Ret x \<and> f x = Ret y)"
  by (cases m) auto

lemma bindG_eq_Panic [go_simps]: "bindG m f = Panic \<longleftrightarrow> m = Panic \<or> (\<exists>x. m = Ret x \<and> f x = Panic)"
  by (cases m) auto

lemma mapG_eq_Ret [go_simps]: "mapG f m = Ret y \<longleftrightarrow> (\<exists>x. m = Ret x \<and> y = f x)"
  by (cases m) auto

lemma mapG_eq_Panic [go_simps, simp]: "mapG f m = Panic \<longleftrightarrow> m = Panic"
  by (cases m) auto

lemma mapG_eq_Block [go_simps, simp]: "mapG f m = Block \<longleftrightarrow> m = Block"
  by (cases m) auto

text \<open>A call that returns: neither a panic nor a wait.\<close>

definition returns :: "'a go \<Rightarrow> bool" where
  "returns m \<longleftrightarrow> (\<exists>x. m = Ret x)"

lemma returns_simps [simp]: "returns (Ret x)" "\<not> returns Panic" "\<not> returns Block"
  "returns (mapG f m) \<longleftrightarrow> returns m"
  by (auto simp: returns_def mapG_eq_Ret)

lemma returns_bindG: "returns m \<Longrightarrow> (\<And>x. m = Ret x \<Longrightarrow> returns (f x)) \<Longrightarrow> returns (bindG m f)"
  by (cases m) auto

lemma returnsE: "returns m \<Longrightarrow> (\<And>x. m = Ret x \<Longrightarrow> thesis) \<Longrightarrow> thesis"
  by (auto simp: returns_def)

text \<open>Error returns: the first error ends the function.\<close>

fun bindE :: "'e + 'a \<Rightarrow> ('a \<Rightarrow> 'e + 'b) \<Rightarrow> 'e + 'b" where
  "bindE (Inl e) f = Inl e"
| "bindE (Inr x) f = f x"

lemma bindE_eq_Inr [go_simps]: "bindE m f = Inr y \<longleftrightarrow> (\<exists>x. m = Inr x \<and> f x = Inr y)"
  by (cases m) auto

lemma bindE_eq_Inl [go_simps]: "bindE m f = Inl e \<longleftrightarrow> m = Inl e \<or> (\<exists>x. m = Inr x \<and> f x = Inl e)"
  by (cases m) auto

lemma bindE_assoc: "bindE (bindE m f) g = bindE m (\<lambda>x. bindE (f x) g)"
  by (cases m) auto

section \<open>Time\<close>

text \<open>
  A \<open>time.Time\<close> is the number of nanoseconds since Go's zero time, a \<open>time.Duration\<close> a
  number of nanoseconds. \<open>Time.Sub\<close> saturates at the bounds of \<open>int64\<close>. \<open>go_div\<close>
  is Go's integer division, which rounds towards zero.
\<close>

type_synonym Time = int
type_synonym Duration = int

abbreviation Second :: Duration where "Second \<equiv> 1000000000"

definition time_Sub :: "Time \<Rightarrow> Time \<Rightarrow> Duration" where
  "time_Sub t u = max (- (2 ^ 63)) (min (2 ^ 63 - 1) (t - u))"

definition go_div :: "int \<Rightarrow> int \<Rightarrow> int" where
  "go_div a b = (let q = \<bar>a\<bar> div \<bar>b\<bar> in if (a < 0) = (b < 0) then q else - q)"

lemma time_Sub_self [simp]: "time_Sub t t = 0"
  by (simp add: time_Sub_def)

lemma go_div_zero [simp]: "go_div 0 b = 0"
  by (simp add: go_div_def)

lemma go_div_nonneg: "0 \<le> a \<Longrightarrow> 0 < b \<Longrightarrow> go_div a b = a div b"
  by (simp add: go_div_def)

section \<open>Big-endian integers\<close>

text \<open>
  \<open>binary.BigEndian.PutUint16\<close>, \<open>PutUint32\<close>, \<open>Uint16\<close> and \<open>Uint32\<close>: shifts and
  byte conversions, as the standard library writes them.
\<close>

definition PutUint16 :: "u16 \<Rightarrow> byte list" where
  "PutUint16 v = [ucast (drop_bit 8 v), ucast v]"

definition PutUint32 :: "u32 \<Rightarrow> byte list" where
  "PutUint32 v = [ucast (drop_bit 24 v), ucast (drop_bit 16 v), ucast (drop_bit 8 v), ucast v]"

definition Uint16 :: "byte \<Rightarrow> byte \<Rightarrow> u16" where
  "Uint16 b0 b1 = ucast b1 OR push_bit 8 (ucast b0)"

definition Uint32 :: "byte \<Rightarrow> byte \<Rightarrow> byte \<Rightarrow> byte \<Rightarrow> u32" where
  "Uint32 b0 b1 b2 b3 =
     ucast b3 OR push_bit 8 (ucast b2) OR push_bit 16 (ucast b1) OR push_bit 24 (ucast b0)"

lemma length_PutUint16 [simp, codec_simps]: "length (PutUint16 v) = 2"
  by (simp add: PutUint16_def)

lemma length_PutUint32 [simp, codec_simps]: "length (PutUint32 v) = 4"
  by (simp add: PutUint32_def)

lemma Uint16_Put [simp, codec_simps]: "Uint16 (ucast (drop_bit 8 v)) (ucast v) = v"
  unfolding Uint16_def
  by (rule bit_word_eqI)
     (auto simp: bit_or_iff bit_push_bit_iff bit_ucast_iff bit_drop_bit_eq)

lemma byte_bit_ge [simp]: "8 \<le> n \<Longrightarrow> \<not> bit (b :: byte) n"
  by (auto dest: bit_imp_le_length)

lemma Uint32_Put [simp, codec_simps]:
  "Uint32 (ucast (drop_bit 24 v)) (ucast (drop_bit 16 v)) (ucast (drop_bit 8 v)) (ucast v) = v"
proof (rule bit_word_eqI)
  fix k assume "k < LENGTH(32)"
  then consider "k < 8" | "8 \<le> k \<and> k < 16" | "16 \<le> k \<and> k < 24" | "24 \<le> k \<and> k < 32"
    by fastforce
  then show "bit (Uint32 (ucast (drop_bit 24 v)) (ucast (drop_bit 16 v)) (ucast (drop_bit 8 v))
      (ucast v)) k = bit v k"
    by cases (auto simp: Uint32_def bit_or_iff bit_push_bit_iff bit_ucast_iff bit_drop_bit_eq)
qed

lemma Uint16_0 [simp]: "Uint16 0 0 = 0"
  by (simp add: Uint16_def)

lemma Put_Uint16 [simp, codec_simps]: "PutUint16 (Uint16 a b) = [a, b]"
  unfolding PutUint16_def Uint16_def
  by (auto intro!: bit_word_eqI simp: bit_or_iff bit_push_bit_iff bit_ucast_iff bit_drop_bit_eq)

lemma Put_Uint32 [simp, codec_simps]: "PutUint32 (Uint32 a b c d) = [a, b, c, d]"
  unfolding PutUint32_def Uint32_def
  by (auto intro!: bit_word_eqI simp: bit_or_iff bit_push_bit_iff bit_ucast_iff bit_drop_bit_eq)

section \<open>Fixed-width codecs\<close>

text \<open>
  The interface of a field: an encoder of constant width \<open>n\<close> and a decoder that reads the
  field from the front of its input and hands back the rest. The client lemmas decode a
  list of fields.
\<close>

locale fixed_codec =
  fixes enc :: "'v \<Rightarrow> byte list"
    and dec :: "byte list \<Rightarrow> 'e + ('v \<times> byte list)"
    and n :: nat
  assumes enc_length: "length (enc v) = n"
    and dec_enc: "dec (enc v @ rest) = Inr (v, rest)"
    and dec_fails: "(\<exists>e. dec bs = Inl e) \<longleftrightarrow> length bs < n"
    and dec_consumes: "dec bs = Inr (v, rest) \<Longrightarrow> bs = enc v @ rest"
begin

lemma enc_inj: "enc v = enc w \<Longrightarrow> v = w"
proof -
  assume "enc v = enc w"
  then have "dec (enc v @ []) = dec (enc w @ [])" by simp
  then show "v = w" by (simp only: dec_enc) simp
qed

lemma length_enc_list: "length (concat (map enc vs)) = n * length vs"
  by (induction vs) (simp_all add: enc_length)

end

fun dec_list :: "(byte list \<Rightarrow> 'e + ('v \<times> byte list)) \<Rightarrow> nat \<Rightarrow> byte list \<Rightarrow> 'e + ('v list \<times> byte list)" where
  "dec_list d 0 bs = Inr ([], bs)"
| "dec_list d (Suc k) bs =
     bindE (d bs) (\<lambda>(v, bs'). bindE (dec_list d k bs') (\<lambda>(vs, bs''). Inr (v # vs, bs'')))"

context fixed_codec
begin

lemma dec_list_enc: "dec_list dec (length vs) (concat (map enc vs) @ rest) = Inr (vs, rest)"
  by (induction vs) (simp_all add: dec_enc)

lemma dec_list_consumes:
  "dec_list dec k bs = Inr (vs, rest) \<Longrightarrow> bs = concat (map enc vs) @ rest \<and> length vs = k"
proof (induction k arbitrary: bs vs)
  case 0
  then show ?case by simp
next
  case (Suc k)
  then obtain v bs' vs' where "dec bs = Inr (v, bs')" "dec_list dec k bs' = Inr (vs', rest)"
    and "vs = v # vs'"
    by (auto simp: go_simps)
  with Suc.IH show ?case using dec_consumes by fastforce
qed

lemma dec_list_fails: "(\<exists>e. dec_list dec k bs = Inl e) \<longleftrightarrow> length bs < n * k"
proof (induction k arbitrary: bs)
  case (Suc k)
  show ?case
  proof (cases "dec bs")
    case (Inl e)
    then have "length bs < n" using dec_fails by blast
    with Inl show ?thesis by auto
  next
    case (Inr r)
    then obtain v rest where r: "dec bs = Inr (v, rest)" by (cases r) auto
    then have "length bs = n + length rest" using dec_consumes enc_length by fastforce
    moreover have "(\<exists>e. dec_list dec (Suc k) bs = Inl e) \<longleftrightarrow> (\<exists>e. dec_list dec k rest = Inl e)"
      using r by (simp add: go_simps split_beta)
    ultimately show ?thesis using Suc.IH [of rest] by simp
  qed
qed simp

end

section \<open>Lists\<close>

lemma take_nth_drop_Suc: "i < length xs \<Longrightarrow> take i xs @ xs ! i # drop (Suc i) xs = xs"
  by (simp add: id_take_nth_drop [symmetric])

lemma find_in_set: "List.find P xs = Some x \<Longrightarrow> x \<in> set xs \<and> P x"
  by (induction xs) (auto split: if_splits)

lemma find_None: "List.find P xs = None \<longleftrightarrow> (\<forall>x \<in> set xs. \<not> P x)"
  by (induction xs) auto

end
