(* ===== verification/Netip.thy ===== *)
theory Netip
  imports Prelude
begin

text \<open>
  The values of the standard library's \<open>net/netip\<close> that the program computes with:
  \<open>netip.Addr\<close> (the invalid zero value, an IPv4 address, an IPv6 address with its zone),
  \<open>netip.Prefix\<close> and the methods the code calls on them. They are the language's library, so
  they are modelled directly and have no entry in the source map, except for the program's own
  conversions between an address and a \<open>uint32\<close>.
  A prefix holds an address and \<open>bitsPlusOne\<close>, which is 0 for an invalid prefix.
\<close>

datatype Addr = NoAddr | IPv4 u32 | IPv6 "128 word" string

datatype Prefix = Prefix (prefix_ip: Addr) (bitsPlusOne: nat)

text \<open>The zero value \<open>netip.Prefix{}\<close>, and \<open>AddrFrom4\<close> on the word of its four bytes.\<close>

definition zeroPrefix :: Prefix where
  "zeroPrefix = Prefix NoAddr 0"

definition AddrFrom4 :: "byte \<Rightarrow> byte \<Rightarrow> byte \<Rightarrow> byte \<Rightarrow> Addr" where
  "AddrFrom4 a b c d = IPv4 (Uint32 a b c d)"

definition As4 :: "Addr \<Rightarrow> (byte \<times> byte \<times> byte \<times> byte) go" where
  "As4 a = (case a of
     IPv4 w \<Rightarrow> Ret (ucast (drop_bit 24 w), ucast (drop_bit 16 w), ucast (drop_bit 8 w), ucast w)
   | IPv6 v z \<Rightarrow>
       (if z = [] \<and> drop_bit 32 v = 0xffff
        then Ret (ucast (drop_bit 24 v), ucast (drop_bit 16 v), ucast (drop_bit 8 v), ucast v)
        else Panic)
   | NoAddr \<Rightarrow> Panic)"

fun BitLen :: "Addr \<Rightarrow> nat" where
  "BitLen NoAddr = 0"
| "BitLen (IPv4 _) = 32"
| "BitLen (IPv6 _ _) = 128"

fun withoutZone :: "Addr \<Rightarrow> Addr" where
  "withoutZone (IPv6 v z) = IPv6 v []"
| "withoutZone a = a"

fun hasZone :: "Addr \<Rightarrow> bool" where
  "hasZone (IPv6 v z) = (z \<noteq> [])"
| "hasZone a = False"

text \<open>\<open>netip.PrefixFrom\<close>: out-of-range bits give an invalid prefix; nothing is masked.\<close>

definition PrefixFrom :: "Addr \<Rightarrow> int \<Rightarrow> Prefix" where
  "PrefixFrom ip b =
     Prefix (withoutZone ip)
       (if ip \<noteq> NoAddr \<and> 0 \<le> b \<and> b \<le> int (BitLen ip) then nat b + 1 else 0)"

definition Bits :: "Prefix \<Rightarrow> int" where
  "Bits p = int (bitsPlusOne p) - 1"

definition IsValid :: "Prefix \<Rightarrow> bool" where
  "IsValid p \<longleftrightarrow> 0 < bitsPlusOne p"

definition Contains :: "Prefix \<Rightarrow> Addr \<Rightarrow> bool" where
  "Contains p ip =
     (IsValid p \<and> \<not> hasZone ip \<and>
      (case (prefix_ip p, ip) of
         (IPv4 a, IPv4 b) \<Rightarrow> drop_bit (nat (32 - Bits p)) (b XOR a) = 0
       | (IPv6 a _, IPv6 b _) \<Rightarrow> drop_bit (nat (128 - Bits p)) (b XOR a) = 0
       | _ \<Rightarrow> False))"

text \<open>\<open>Prefix.Masked\<close>: clear the host bits; an invalid prefix becomes the zero prefix.\<close>

definition Masked :: "Prefix \<Rightarrow> Prefix" where
  "Masked p =
     (if IsValid p then
        (case prefix_ip p of
           NoAddr \<Rightarrow> zeroPrefix
         | IPv4 a \<Rightarrow>
             Prefix (IPv4 (push_bit (nat (32 - Bits p)) (drop_bit (nat (32 - Bits p)) a))) (bitsPlusOne p)
         | IPv6 v z \<Rightarrow>
             Prefix (IPv6 (push_bit (nat (128 - Bits p)) (drop_bit (nat (128 - Bits p)) v)) []) (bitsPlusOne p))
      else zeroPrefix)"

section \<open>Conversions between uint32 and netip.Addr\<close>

definition uint32ToNetipAddr :: "u32 \<Rightarrow> Addr" where
  "uint32ToNetipAddr ipUint32 =
     AddrFrom4 (ucast (drop_bit 24 ipUint32)) (ucast (drop_bit 16 ipUint32))
       (ucast (drop_bit 8 ipUint32)) (ucast ipUint32)"

lemma uint32ToNetipAddr_eq [simp]: "uint32ToNetipAddr w = IPv4 w"
  by (simp add: uint32ToNetipAddr_def AddrFrom4_def)

section \<open>Facts about prefixes\<close>

lemma Bits_zeroPrefix [simp]: "Bits zeroPrefix = - 1"
  by (simp add: Bits_def zeroPrefix_def)

lemma Bits_ge [simp]: "- 1 \<le> Bits p"
  by (simp add: Bits_def)

lemma Contains_valid: "Contains p ip \<Longrightarrow> 0 \<le> Bits p"
  by (simp add: Contains_def IsValid_def Bits_def)

lemma Contains_zeroPrefix [simp]: "\<not> Contains zeroPrefix ip"
  by (simp add: Contains_def IsValid_def zeroPrefix_def)

lemma Contains_NoAddr [simp]: "\<not> Contains p NoAddr"
  by (auto simp: Contains_def split: Addr.splits)

lemma Bits_PrefixFrom_IPv4:
  "Bits (PrefixFrom (IPv4 a) b) = (if 0 \<le> b \<and> b \<le> 32 then b else - 1)"
  by (simp add: PrefixFrom_def Bits_def)

lemma word_xor_eq_0: "(x :: 'a::len word) XOR y = 0 \<longleftrightarrow> x = y"
  by (auto simp: bit_eq_iff bit_xor_iff)

lemma drop_bit_32_word [simp]: "drop_bit 32 (w :: u32) = 0"
  by (rule bit_word_eqI) (simp add: bit_drop_bit_eq)

text \<open>An IPv4 prefix contains exactly the addresses that agree with it on its leading bits.\<close>

lemma Contains_IPv4:
  "0 \<le> b \<Longrightarrow> b \<le> 32 \<Longrightarrow>
   Contains (PrefixFrom (IPv4 a) b) (IPv4 w) \<longleftrightarrow>
     drop_bit (nat (32 - b)) w = drop_bit (nat (32 - b)) a"
proof -
  assume b: "0 \<le> b" "b \<le> 32"
  have "drop_bit k (w XOR a) = 0 \<longleftrightarrow> drop_bit k w = drop_bit k a" for k
    by (simp add: drop_bit_xor word_xor_eq_0)
  with b show ?thesis
    by (simp add: Contains_def PrefixFrom_def IsValid_def Bits_def)
qed

lemma Contains_default: "Contains (PrefixFrom (IPv4 a) 0) (IPv4 w)"
  by (simp add: Contains_IPv4)

lemma Contains_self: "0 \<le> b \<Longrightarrow> b \<le> 32 \<Longrightarrow> Contains (PrefixFrom (IPv4 a) b) (IPv4 a)"
  by (simp add: Contains_IPv4)

end
