(* ===== verification/Go_Slice.thy ===== *)
theory Go_Slice
  imports Prelude
begin

text \<open>
  Go slices with their backing array, for the loops that range over a slice while the loop body
  deletes from it. A slice is its backing array and its length. Deleting index \<open>i\<close> with
  \<open>append(s[:i], s[i+1:]...)\<close> shifts the later elements down in the same array and leaves the
  old last element behind in its slot, where a range that started earlier still sees it.
\<close>

record 'a slice =
  arr :: "'a list"
  slen :: nat

definition live :: "'a slice \<Rightarrow> 'a list" where
  "live s = take (slen s) (arr s)"

definition slice_of :: "'a list \<Rightarrow> 'a slice" where
  "slice_of xs = \<lparr>arr = xs, slen = length xs\<rparr>"

definition slice_ok :: "'a slice \<Rightarrow> bool" where
  "slice_ok s \<longleftrightarrow> slen s \<le> length (arr s)"

definition slice_delete :: "nat \<Rightarrow> 'a slice \<Rightarrow> 'a slice" where
  "slice_delete i s = \<lparr>arr = take i (arr s) @ take (slen s - Suc i) (drop (Suc i) (arr s)) @
     drop (slen s - 1) (arr s), slen = slen s - 1\<rparr>"

lemma live_slice_of [simp]: "live (slice_of xs) = xs" "slice_ok (slice_of xs)"
  "arr (slice_of xs) = xs" "slen (slice_of xs) = length xs"
  by (simp_all add: live_def slice_of_def slice_ok_def)

lemma length_live: "slice_ok s \<Longrightarrow> length (live s) = slen s"
  by (simp add: live_def slice_ok_def)

lemma slen_slice_delete [simp]: "slen (slice_delete i s) = slen s - 1"
  by (simp add: slice_delete_def)

lemma length_arr_slice_delete [simp]:
  "slice_ok s \<Longrightarrow> i < slen s \<Longrightarrow> length (arr (slice_delete i s)) = length (arr s)"
  by (simp add: slice_delete_def slice_ok_def)

lemma slice_ok_delete: "slice_ok s \<Longrightarrow> i < slen s \<Longrightarrow> slice_ok (slice_delete i s)"
  by (simp add: slice_delete_def slice_ok_def)

lemma live_slice_delete:
  "slice_ok s \<Longrightarrow> i < slen s \<Longrightarrow> live (slice_delete i s) = take i (live s) @ drop (Suc i) (live s)"
proof -
  assume ok: "slice_ok s" "i < slen s"
  let ?A = "take i (arr s) @ take (slen s - Suc i) (drop (Suc i) (arr s))"
  have len: "length ?A = slen s - 1" using ok by (simp add: slice_ok_def)
  have "live (slice_delete i s) = take (slen s - 1) (?A @ drop (slen s - 1) (arr s))"
    by (simp add: live_def slice_delete_def)
  also have "\<dots> = ?A" unfolding len [symmetric] by (rule append_eq_conv_conj [THEN iffD1, OF refl, THEN conjunct1, symmetric])
  also have "\<dots> = take i (live s) @ drop (Suc i) (live s)"
    using ok by (simp add: live_def drop_take min_def)
  finally show ?thesis .
qed

lemma arr_slice_delete_subset: "set (arr (slice_delete i s)) \<subseteq> set (arr s)"
  by (auto simp: slice_delete_def dest: in_set_takeD in_set_dropD)

lemma arr_slice_delete_low: "j < i \<Longrightarrow> slice_ok s \<Longrightarrow> i < slen s \<Longrightarrow> arr (slice_delete i s) ! j = arr s ! j"
  by (simp add: slice_delete_def slice_ok_def nth_append)

lemma arr_slice_delete_high:
  assumes "slice_ok s" "i \<le> j" "j < slen s"
  shows "arr (slice_delete i s) ! j = arr s ! (if j + 1 < slen s then j + 1 else slen s - 1)"
proof (cases "j + 1 < slen s")
  case True
  with assms(2) have "j - i < slen s - Suc i" by linarith
  with True assms show ?thesis by (simp add: slice_delete_def slice_ok_def nth_append)
next
  case False
  with assms have "j = slen s - 1" by simp
  with assms show ?thesis by (simp add: slice_delete_def slice_ok_def nth_append)
qed

text \<open>The first live index whose element satisfies a test.\<close>

fun find_index :: "('a \<Rightarrow> bool) \<Rightarrow> 'a list \<Rightarrow> nat option" where
  "find_index P [] = None"
| "find_index P (x # xs) = (if P x then Some 0 else map_option Suc (find_index P xs))"

lemma find_index_Some: "find_index P xs = Some i \<Longrightarrow> i < length xs \<and> P (xs ! i) \<and> (\<forall>j < i. \<not> P (xs ! j))"
proof (induction xs arbitrary: i)
  case (Cons x xs)
  show ?case
  proof (cases "P x")
    case False
    with Cons.prems obtain k where k: "find_index P xs = Some k" "i = Suc k" by auto
    from Cons.IH [OF k(1)] k(2) False show ?thesis by (auto simp: less_Suc_eq_0_disj)
  qed (use Cons.prems in auto)
qed simp

lemma find_index_None: "find_index P xs = None \<longleftrightarrow> (\<forall>x \<in> set xs. \<not> P x)"
  by (induction xs) auto

end
