(* ===== verification/Forwarding.thy ===== *)
theory Forwarding
  imports Netip
begin

text \<open>
  The forwarding table (\<open>pkg/ipstack/forwarding.go\<close>): its entries, longest-prefix matching
  (\<open>NextHop\<close>), \<open>AddRoute\<close>, \<open>Lookup\<close> and \<open>RemoveRoute\<close>. The table is the list of its
  entries in order; the lock makes every operation atomic. \<open>Lookup\<close> returns a pointer to a
  copy of the entry (the loop variable), so its result is a value here, and writing through it
  changes nothing in the table.
  The locale \<open>prefix_table\<close> is the contract the routing code relies on: what a lookup returns
  after an add or a remove, and the invariant both keep.
\<close>

section \<open>Entries\<close>

datatype RouteSource = SourceStatic | SourceRIP | SourceLocal

record ForwardingTableEntry =
  DestinationPrefix :: Prefix
  NextHop :: Addr
  Interface :: string
  Metric :: int
  Source :: RouteSource
  LastUpdated :: Time

type_synonym ForwardingTable = "ForwardingTableEntry list"

text \<open>
  \<open>ForwardingTableEntry{}\<close>. Its \<open>Source\<close> is the empty string in Go, which no code path
  reads from a zero entry; the model has no such source and puts \<open>SourceStatic\<close> there.
\<close>

definition zeroEntry :: ForwardingTableEntry where
  "zeroEntry = \<lparr>DestinationPrefix = zeroPrefix, NextHop = NoAddr, Interface = [],
     Metric = 0, Source = SourceStatic, LastUpdated = 0\<rparr>"

section \<open>Operations\<close>

text \<open>The loop of \<open>NextHop\<close> carries the best entry and its prefix so far.\<close>

definition NextHop_step ::
  "Addr \<Rightarrow> ForwardingTableEntry \<Rightarrow> ForwardingTableEntry \<times> Prefix \<Rightarrow> ForwardingTableEntry \<times> Prefix" where
  "NextHop_step destination entry acc =
     (case acc of (bestMatch, bestPrefix) \<Rightarrow>
        if Contains (DestinationPrefix entry) destination then
          (if Bits bestPrefix = 0 \<or> Bits bestPrefix < Bits (DestinationPrefix entry)
           then (entry, DestinationPrefix entry)
           else (bestMatch, bestPrefix))
        else (bestMatch, bestPrefix))"

definition NextHop_ft :: "ForwardingTable \<Rightarrow> Addr \<Rightarrow> string \<times> Addr" where
  "NextHop_ft ft destination =
     (case fold (NextHop_step destination) ft (zeroEntry, zeroPrefix) of
        (bestMatch, _) \<Rightarrow> (Interface bestMatch, NextHop bestMatch))"

fun AddRoute :: "ForwardingTable \<Rightarrow> ForwardingTableEntry \<Rightarrow> ForwardingTable" where
  "AddRoute [] entry = [entry]"
| "AddRoute (e # es) entry =
     (if DestinationPrefix e = DestinationPrefix entry
      then (if Metric entry < Metric e then entry # es else e # es)
      else e # AddRoute es entry)"

fun Lookup :: "ForwardingTable \<Rightarrow> Prefix \<Rightarrow> ForwardingTableEntry \<times> bool" where
  "Lookup [] prefix = (zeroEntry, False)"
| "Lookup (e # es) prefix = (if DestinationPrefix e = prefix then (e, True) else Lookup es prefix)"

fun RemoveRoute :: "ForwardingTable \<Rightarrow> Prefix \<Rightarrow> ForwardingTable" where
  "RemoveRoute [] prefix = []"
| "RemoveRoute (e # es) prefix = (if DestinationPrefix e = prefix then es else e # RemoveRoute es prefix)"

section \<open>Longest-prefix matching\<close>

text \<open>
  The specification: among the entries that contain the destination, those of the greatest
  prefix length; the first of them in table order, except that among default routes (length 0)
  the last one is taken.
\<close>

definition matching :: "ForwardingTable \<Rightarrow> Addr \<Rightarrow> ForwardingTableEntry list" where
  "matching ft d = filter (\<lambda>e. Contains (DestinationPrefix e) d) ft"

definition plen :: "ForwardingTableEntry \<Rightarrow> int" where
  "plen e = Bits (DestinationPrefix e)"

definition best_route :: "ForwardingTableEntry list \<Rightarrow> ForwardingTableEntry option" where
  "best_route es =
     (if es = [] then None
      else let m = Max (plen ` set es)
           in if 0 < m then List.find (\<lambda>e. plen e = m) es else Some (last es))"

lemma fold_NextHop_step_filter:
  "fold (NextHop_step d) ft acc = fold (NextHop_step d) (matching ft d) acc"
  by (induction ft arbitrary: acc) (auto simp: matching_def NextHop_step_def split: prod.splits)

lemma find_append: "List.find P (xs @ ys) = (case List.find P xs of None \<Rightarrow> List.find P ys | r \<Rightarrow> r)"
  by (induction xs) auto

lemma plen_le_Max: "e \<in> set es \<Longrightarrow> plen e \<le> Max (plen ` set es)"
  by (intro Max_ge) auto

lemma find_Max:
  assumes "es \<noteq> []"
  shows "\<exists>e. List.find (\<lambda>e. plen e = Max (plen ` set es)) es = Some e"
proof -
  from assms have "Max (plen ` set es) \<in> plen ` set es" by (intro Max_in) auto
  then obtain e where "e \<in> set es" "plen e = Max (plen ` set es)" by auto
  then show ?thesis
    by (cases "List.find (\<lambda>e. plen e = Max (plen ` set es)) es") (auto simp: find_None)
qed

lemma best_route_snoc:
  assumes pos: "\<forall>e \<in> set (es @ [x]). 0 \<le> plen e" and ne: "es \<noteq> []"
  shows "best_route (es @ [x]) =
    (case best_route es of Some b \<Rightarrow> if plen b = 0 \<or> plen b < plen x then Some x else Some b
     | None \<Rightarrow> None)"
proof -
  let ?m = "Max (plen ` set es)"
  have Max': "Max (plen ` set (es @ [x])) = max ?m (plen x)"
    using ne by (simp add: max.commute)
  have m_in: "?m \<in> plen ` set es" using ne by (intro Max_in) auto
  then have "0 \<le> ?m" using pos by auto
  then consider "?m = 0" | "0 < ?m" "?m < plen x" | "0 < ?m" "plen x \<le> ?m" by linarith
  then show ?thesis
  proof cases
    case 1
    then have z: "plen e = 0" if "e \<in> set es" for e
      using plen_le_Max [OF that] pos that by auto
    have "last es \<in> set es" using ne by simp
    with z have "plen (last es) = 0" by blast
    moreover have "List.find (\<lambda>e. plen e = plen x) es = None" if "0 < plen x"
      using that z by (auto simp: find_None)
    ultimately show ?thesis
      using 1 ne pos Max' by (auto simp: best_route_def Let_def find_append)
  next
    case 2
    then have "plen e \<noteq> plen x" if "e \<in> set es" for e
      using plen_le_Max [OF that] by linarith
    then have "List.find (\<lambda>e. plen e = plen x) es = None"
      by (simp add: find_None)
    moreover obtain b where "List.find (\<lambda>e. plen e = ?m) es = Some b"
      using find_Max [OF ne] by auto
    moreover from this have "plen b = ?m" by (auto dest: find_in_set)
    ultimately show ?thesis
      using 2 ne Max' by (simp add: best_route_def Let_def find_append)
  next
    case 3
    obtain b where b: "List.find (\<lambda>e. plen e = ?m) es = Some b"
      using find_Max [OF ne] by auto
    moreover from this have "plen b = ?m" by (auto dest: find_in_set)
    ultimately show ?thesis
      using 3 ne Max' by (simp add: best_route_def Let_def find_append max_def)
  qed
qed

lemma best_route_some:
  assumes ne: "es \<noteq> []" and pos: "\<forall>e \<in> set es. 0 \<le> plen e"
  shows "\<exists>b. best_route es = Some b \<and> b \<in> set es \<and> (\<forall>e \<in> set es. plen e \<le> plen b)"
proof (cases "0 < Max (plen ` set es)")
  case True
  obtain b where b: "List.find (\<lambda>e. plen e = Max (plen ` set es)) es = Some b"
    using find_Max [OF ne] by auto
  from find_in_set [OF b] have "b \<in> set es" "plen b = Max (plen ` set es)" by auto
  with True b ne show ?thesis by (simp add: best_route_def Let_def)
next
  case False
  then have "plen e = 0" if "e \<in> set es" for e
    using pos that plen_le_Max [OF that] by (meson leD le_less_linear le_less_trans order.antisym)
  with False ne show ?thesis by (simp add: best_route_def)
qed

lemma fold_NextHop_step_best:
  assumes "\<forall>e \<in> set es. Contains (DestinationPrefix e) d"
  shows "fold (NextHop_step d) es (zeroEntry, zeroPrefix) =
    (case best_route es of None \<Rightarrow> (zeroEntry, zeroPrefix) | Some b \<Rightarrow> (b, DestinationPrefix b))"
  using assms
proof (induction es rule: rev_induct)
  case Nil
  then show ?case by (simp add: best_route_def)
next
  case (snoc x es)
  from snoc.prems have pos: "\<forall>e \<in> set (es @ [x]). 0 \<le> plen e"
    by (auto simp: plen_def dest: Contains_valid)
  show ?case
  proof (cases "es = []")
    case True
    with snoc.prems pos show ?thesis
      by (simp add: best_route_def NextHop_step_def plen_def Let_def)
  next
    case False
    from False pos obtain b where "best_route es = Some b"
      using best_route_some [of es] by auto
    with snoc False pos show ?thesis
      by (auto simp: best_route_snoc NextHop_step_def plen_def)
  qed
qed

lemma matching_Contains: "e \<in> set (matching ft d) \<longleftrightarrow> e \<in> set ft \<and> Contains (DestinationPrefix e) d"
  by (auto simp: matching_def)

lemma matching_pos: "\<forall>e \<in> set (matching ft d). 0 \<le> plen e"
  by (auto simp: matching_Contains plen_def dest: Contains_valid)

lemma NextHop_ft_best:
  "NextHop_ft ft d =
     (case best_route (matching ft d) of
        None \<Rightarrow> ([], NoAddr) | Some b \<Rightarrow> (Interface b, NextHop b))"
proof -
  have "fold (NextHop_step d) ft (zeroEntry, zeroPrefix) =
      (case best_route (matching ft d) of
         None \<Rightarrow> (zeroEntry, zeroPrefix) | Some b \<Rightarrow> (b, DestinationPrefix b))"
    unfolding fold_NextHop_step_filter [of d ft]
    by (rule fold_NextHop_step_best) (simp add: matching_Contains)
  then show ?thesis
    by (simp add: NextHop_ft_def zeroEntry_def split: option.splits)
qed

section \<open>The table as a keyed store\<close>

text \<open>The invariant: no two entries share a prefix. \<open>Lookup\<close> as an option.\<close>

definition table_ok :: "ForwardingTable \<Rightarrow> bool" where
  "table_ok ft \<longleftrightarrow> distinct (map DestinationPrefix ft)"

definition route_for :: "ForwardingTable \<Rightarrow> Prefix \<Rightarrow> ForwardingTableEntry option" where
  "route_for ft p = (case Lookup ft p of (e, found) \<Rightarrow> if found then Some e else None)"

lemma Lookup_route_for:
  "Lookup ft p = (case route_for ft p of None \<Rightarrow> (zeroEntry, False) | Some e \<Rightarrow> (e, True))"
  by (induction ft) (auto simp: route_for_def split: if_splits)

lemma route_for_Nil [simp]: "route_for [] p = None"
  by (simp add: route_for_def)

lemma route_for_Cons [simp]:
  "route_for (e # es) p = (if DestinationPrefix e = p then Some e else route_for es p)"
  by (simp add: route_for_def)

lemma route_for_key: "route_for ft p = Some e \<Longrightarrow> e \<in> set ft \<and> DestinationPrefix e = p"
  by (induction ft) (auto split: if_splits)

lemma route_for_None: "route_for ft p = None \<longleftrightarrow> p \<notin> DestinationPrefix ` set ft"
  by (induction ft) auto

lemma route_for_mem: "table_ok ft \<Longrightarrow> e \<in> set ft \<Longrightarrow> route_for ft (DestinationPrefix e) = Some e"
  by (induction ft) (auto simp: table_ok_def)

lemma keys_AddRoute: "DestinationPrefix ` set (AddRoute ft e) = insert (DestinationPrefix e) (DestinationPrefix ` set ft)"
  by (induction ft) auto

lemma table_ok_AddRoute: "table_ok ft \<Longrightarrow> table_ok (AddRoute ft e)"
proof (induction ft)
  case (Cons a ft)
  then show ?case
    using keys_AddRoute [of ft e] by (auto simp: table_ok_def)
qed (simp add: table_ok_def)

lemma set_RemoveRoute_subset: "set (RemoveRoute ft p) \<subseteq> set ft"
  by (induction ft) auto

lemma table_ok_RemoveRoute: "table_ok ft \<Longrightarrow> table_ok (RemoveRoute ft p)"
proof (induction ft)
  case (Cons a ft)
  then show ?case
    using set_RemoveRoute_subset [of ft p] by (fastforce simp: table_ok_def)
qed (simp add: table_ok_def)

lemma route_for_AddRoute:
  "route_for (AddRoute ft v) k =
     (if k = DestinationPrefix v then
        (case route_for ft k of None \<Rightarrow> Some v | Some w \<Rightarrow> if Metric v < Metric w then Some v else Some w)
      else route_for ft k)"
  by (induction ft) auto

lemma route_for_RemoveRoute:
  "table_ok ft \<Longrightarrow> route_for (RemoveRoute ft k) k' = (if k' = k then None else route_for ft k')"
  by (induction ft) (auto simp: table_ok_def route_for_None)

lemma RemoveRoute_filter: "table_ok ft \<Longrightarrow> RemoveRoute ft p = filter (\<lambda>e. DestinationPrefix e \<noteq> p) ft"
proof (induction ft)
  case (Cons a ft)
  then have "DestinationPrefix a \<notin> DestinationPrefix ` set ft" and "table_ok ft"
    by (simp_all add: table_ok_def)
  moreover from this have "filter (\<lambda>e. DestinationPrefix e \<noteq> DestinationPrefix a) ft = ft"
    by (intro filter_True) (metis image_eqI)
  ultimately show ?case using Cons.IH by auto
qed simp

text \<open>The contract, with the consequences for a sequence of additions proved once.\<close>

locale prefix_table =
  fixes lookup :: "'t \<Rightarrow> 'k \<Rightarrow> 'v option"
    and add :: "'t \<Rightarrow> 'v \<Rightarrow> 't"
    and remove :: "'t \<Rightarrow> 'k \<Rightarrow> 't"
    and key :: "'v \<Rightarrow> 'k"
    and cost :: "'v \<Rightarrow> int"
    and inv :: "'t \<Rightarrow> bool"
  assumes lookup_add: "inv t \<Longrightarrow> lookup (add t v) k =
      (if k = key v then
         (case lookup t k of None \<Rightarrow> Some v | Some w \<Rightarrow> if cost v < cost w then Some v else Some w)
       else lookup t k)"
    and lookup_remove: "inv t \<Longrightarrow> lookup (remove t k) k' = (if k' = k then None else lookup t k')"
    and inv_add: "inv t \<Longrightarrow> inv (add t v)"
    and inv_remove: "inv t \<Longrightarrow> inv (remove t k)"
begin

lemma inv_foldl: "inv t \<Longrightarrow> inv (foldl add t vs)"
  by (induction vs arbitrary: t) (simp_all add: inv_add)

lemma foldl_cost_le:
  "inv t \<Longrightarrow> lookup t k = Some w \<Longrightarrow> \<exists>w'. lookup (foldl add t vs) k = Some w' \<and> cost w' \<le> cost w"
proof (induction vs arbitrary: t w)
  case (Cons v vs)
  let ?w = "if k = key v \<and> cost v < cost w then v else w"
  have "lookup (add t v) k = Some ?w" using Cons.prems by (auto simp: lookup_add)
  from Cons.IH [OF inv_add [OF Cons.prems(1)] this] show ?case by (fastforce split: if_splits)
qed simp

lemma foldl_cost_le_offer:
  "inv t \<Longrightarrow> v \<in> set vs \<Longrightarrow> \<exists>w'. lookup (foldl add t vs) (key v) = Some w' \<and> cost w' \<le> cost v"
proof (induction vs arbitrary: t)
  case (Cons u vs)
  show ?case
  proof (cases "v = u")
    case True
    then obtain w where "lookup (add t u) (key v) = Some w" "cost w \<le> cost v"
      using lookup_add [OF Cons.prems(1), of u "key v"] by (auto split: option.splits if_splits)
    with foldl_cost_le [OF inv_add [OF Cons.prems(1)], of u "key v" w vs] show ?thesis by fastforce
  next
    case False
    with Cons.prems Cons.IH [of "add t u"] show ?thesis by (simp add: inv_add)
  qed
qed simp

lemma foldl_origin:
  "inv t \<Longrightarrow> lookup (foldl add t vs) k = Some w \<Longrightarrow> lookup t k = Some w \<or> (w \<in> set vs \<and> key w = k)"
proof (induction vs arbitrary: t)
  case (Cons v vs)
  from Cons.IH [of "add t v"] Cons.prems have
    "lookup (add t v) k = Some w \<or> (w \<in> set vs \<and> key w = k)" by (simp add: inv_add)
  then show ?case
    using lookup_add [OF Cons.prems(1), of v k] by (auto split: option.splits if_splits)
qed simp

lemma foldl_improves:
  "inv t \<Longrightarrow> lookup t k = Some w0 \<Longrightarrow> lookup (foldl add t vs) k = Some w \<Longrightarrow> w \<noteq> w0 \<Longrightarrow> cost w < cost w0"
proof (induction vs arbitrary: t w0)
  case (Cons v vs)
  show ?case
  proof (cases "k = key v \<and> cost v < cost w0")
    case True
    then have l: "lookup (add t v) k = Some v" using Cons.prems by (simp add: lookup_add)
    show ?thesis
    proof (cases "w = v")
      case False
      with Cons.IH [OF inv_add [OF Cons.prems(1)] l] Cons.prems(3) True show ?thesis by fastforce
    qed (use True in simp)
  next
    case False
    then have "lookup (add t v) k = Some w0" using Cons.prems by (auto simp: lookup_add)
    with Cons.IH [OF inv_add [OF Cons.prems(1)] this] Cons.prems(3,4) show ?thesis by simp
  qed
qed simp

lemma foldl_keeps:
  "inv t \<Longrightarrow> lookup t k = Some w \<Longrightarrow> (\<And>v. v \<in> set vs \<Longrightarrow> key v = k \<Longrightarrow> cost w \<le> cost v) \<Longrightarrow>
   lookup (foldl add t vs) k = Some w"
proof (induction vs arbitrary: t)
  case (Cons v vs)
  from Cons.prems have "lookup (add t v) k = Some w"
    by (force simp: lookup_add)
  with Cons show ?case by (simp add: inv_add)
qed simp

lemma foldl_None:
  "inv t \<Longrightarrow> lookup (foldl add t vs) k = None \<longleftrightarrow> lookup t k = None \<and> (\<forall>v \<in> set vs. key v \<noteq> k)"
  by (induction vs arbitrary: t) (auto simp: inv_add lookup_add split: option.splits if_splits)

end

interpretation ft: prefix_table route_for AddRoute RemoveRoute DestinationPrefix Metric table_ok
  by unfold_locales
     (simp_all add: route_for_AddRoute route_for_RemoveRoute table_ok_AddRoute table_ok_RemoveRoute)

section \<open>Properties\<close>

text \<open>
  C1. Longest-prefix matching. \<open>NextHop\<close> returns the interface and next hop of the route
  the specification selects: the first of the longest matching prefixes (the last one among
  default routes), and the empty interface with the invalid address when nothing matches.
\<close>

theorem NextHop_refines_best_route:
  "NextHop_ft ft d =
     (case best_route (filter (\<lambda>e. Contains (DestinationPrefix e) d) ft) of
        None \<Rightarrow> ([], NoAddr) | Some b \<Rightarrow> (Interface b, NextHop b)) \<and>
   (best_route (filter (\<lambda>e. Contains (DestinationPrefix e) d) ft) = None \<longleftrightarrow>
      (\<forall>e \<in> set ft. \<not> Contains (DestinationPrefix e) d)) \<and>
   (\<forall>b. best_route (filter (\<lambda>e. Contains (DestinationPrefix e) d) ft) = Some b \<longrightarrow>
      b \<in> set ft \<and> Contains (DestinationPrefix b) d \<and>
      (\<forall>e \<in> set ft. Contains (DestinationPrefix e) d \<longrightarrow>
         Bits (DestinationPrefix e) \<le> Bits (DestinationPrefix b)))"
proof (cases "matching ft d = []")
  case True
  then show ?thesis
    using NextHop_ft_best [of ft d]
    by (auto simp: best_route_def matching_def filter_empty_conv)
next
  case False
  from best_route_some [OF False matching_pos] obtain b where
    "best_route (matching ft d) = Some b" "b \<in> set (matching ft d)"
    "\<forall>e \<in> set (matching ft d). plen e \<le> plen b" by auto
  then show ?thesis
    using NextHop_ft_best [of ft d] by (auto simp: matching_def plen_def)
qed

definition example_routes :: ForwardingTable where
  "example_routes =
     [\<lparr>DestinationPrefix = PrefixFrom (IPv4 0) 0, NextHop = IPv4 0x0a000001, Interface = ''if0'',
        Metric = 1, Source = SourceStatic, LastUpdated = 0\<rparr>,
      \<lparr>DestinationPrefix = PrefixFrom (IPv4 0x0a010000) 16, NextHop = IPv4 0x0a000002, Interface = ''if1'',
        Metric = 2, Source = SourceRIP, LastUpdated = 7\<rparr>,
      \<lparr>DestinationPrefix = PrefixFrom (IPv4 0x0a010200) 24, NextHop = IPv4 0x0a000003, Interface = ''if2'',
        Metric = 3, Source = SourceRIP, LastUpdated = 8\<rparr>]"

lemma example_best:
  "best_route (filter (\<lambda>e. Contains (DestinationPrefix e) (IPv4 0x0a010203)) example_routes) =
     Some (example_routes ! 2)"
  "best_route (filter (\<lambda>e. Contains (DestinationPrefix e) (IPv4 0x0a010303)) example_routes) =
     Some (example_routes ! 1)"
  by code_simp+

theorem NextHop_refines_best_route_witness:
  "NextHop_ft example_routes (IPv4 0x0a010203) = (''if2'', IPv4 0x0a000003) \<and>
   NextHop_ft example_routes (IPv4 0x0a010303) = (''if1'', IPv4 0x0a000002)"
  using conjunct1 [OF NextHop_refines_best_route [of example_routes "IPv4 0x0a010203"]]
    conjunct1 [OF NextHop_refines_best_route [of example_routes "IPv4 0x0a010303"]]
  unfolding example_best by (simp add: example_routes_def)

end
