(* ===== verification/RIP_Packet.thy ===== *)
theory RIP_Packet
  imports Prelude
begin

text \<open>
  The RIP message format (\<open>pkg/ipstack/rippacket.go\<close>): a 16-bit command, a 16-bit entry count
  and twelve bytes per entry (cost, address, mask), big-endian. \<open>binary.Read\<close> on a
  \<open>bytes.Buffer\<close> reads a field from the front or fails with \<open>io.EOF\<close> (nothing left) or
  \<open>io.ErrUnexpectedEOF\<close> (a partial field); \<open>binary.Write\<close> appends and cannot fail on a
  buffer. An entry is a fixed-width codec, so decoding a message is an instance of decoding a
  list of fields.
\<close>

datatype io_error = EOF | ErrUnexpectedEOF

datatype Command = Command u16

definition RIP_REQUEST :: Command where "RIP_REQUEST = Command 1"
definition RIP_RESPONSE :: Command where "RIP_RESPONSE = Command 2"

record RIPMessageEntry =
  entry_cost :: u32
  entry_address :: u32
  entry_mask :: u32

record RIPMessage =
  command :: Command
  num_entries :: u16
  entries :: "RIPMessageEntry list"

section \<open>The buffer primitives\<close>

definition short_read :: "byte list \<Rightarrow> io_error" where
  "short_read bs = (if bs = [] then EOF else ErrUnexpectedEOF)"

definition Read16 :: "byte list \<Rightarrow> io_error + (u16 \<times> byte list)" where
  "Read16 bs = (case bs of
     b0 # b1 # rest \<Rightarrow> Inr (Uint16 b0 b1, rest)
   | _ \<Rightarrow> Inl (short_read bs))"

definition Read32 :: "byte list \<Rightarrow> io_error + (u32 \<times> byte list)" where
  "Read32 bs = (case bs of
     b0 # b1 # b2 # b3 # rest \<Rightarrow> Inr (Uint32 b0 b1 b2 b3, rest)
   | _ \<Rightarrow> Inl (short_read bs))"

definition Write16 :: "byte list \<Rightarrow> u16 \<Rightarrow> io_error + byte list" where
  "Write16 buf v = Inr (buf @ PutUint16 v)"

definition Write32 :: "byte list \<Rightarrow> u32 \<Rightarrow> io_error + byte list" where
  "Write32 buf v = Inr (buf @ PutUint32 v)"

lemma Read16_Put [simp]: "Read16 (PutUint16 v @ rest) = Inr (v, rest)"
  by (simp add: Read16_def PutUint16_def)

lemma Read32_Put [simp]: "Read32 (PutUint32 v @ rest) = Inr (v, rest)"
  by (simp add: Read32_def PutUint32_def)

lemma Read16_Inr: "Read16 bs = Inr (v, rest) \<Longrightarrow> bs = PutUint16 v @ rest"
  by (auto simp: Read16_def split: list.splits)

lemma Read32_Inr: "Read32 bs = Inr (v, rest) \<Longrightarrow> bs = PutUint32 v @ rest"
  by (auto simp: Read32_def split: list.splits)

lemma Read16_fails: "(\<exists>e. Read16 bs = Inl e) \<longleftrightarrow> length bs < 2"
  by (auto simp: Read16_def split: list.splits)

lemma Read32_fails: "(\<exists>e. Read32 bs = Inl e) \<longleftrightarrow> length bs < 4"
  by (auto simp: Read32_def split: list.splits)

interpretation c16: fixed_codec PutUint16 Read16 2
  by unfold_locales (auto simp: Read16_fails dest: Read16_Inr)

interpretation c32: fixed_codec PutUint32 Read32 4
  by unfold_locales (auto simp: Read32_fails dest: Read32_Inr)

section \<open>Marshalling\<close>

fun marshal_entries :: "byte list \<Rightarrow> RIPMessageEntry list \<Rightarrow> io_error + byte list" where
  "marshal_entries buf [] = Inr buf"
| "marshal_entries buf (entry # es) =
     bindE (Write32 buf (entry_cost entry)) (\<lambda>buf.
     bindE (Write32 buf (entry_address entry)) (\<lambda>buf.
     bindE (Write32 buf (entry_mask entry)) (\<lambda>buf.
       marshal_entries buf es)))"

fun command_code :: "Command \<Rightarrow> u16" where
  "command_code (Command c) = c"

definition MarshalRIPMessage :: "RIPMessage \<Rightarrow> io_error + byte list" where
  "MarshalRIPMessage message =
     bindE (Write16 [] (command_code (command message))) (\<lambda>buf.
     bindE (Write16 buf (num_entries message)) (\<lambda>buf.
       marshal_entries buf (entries message)))"

definition read_entry :: "byte list \<Rightarrow> io_error + (RIPMessageEntry \<times> byte list)" where
  "read_entry buf =
     bindE (Read32 buf) (\<lambda>(c, buf).
     bindE (Read32 buf) (\<lambda>(a, buf).
     bindE (Read32 buf) (\<lambda>(m, buf).
       Inr (\<lparr>entry_cost = c, entry_address = a, entry_mask = m\<rparr>, buf))))"

definition UnmarshalRIPMessage :: "byte list \<Rightarrow> io_error + RIPMessage" where
  "UnmarshalRIPMessage message =
     bindE (Read16 message) (\<lambda>(c, buf).
     bindE (Read16 buf) (\<lambda>(n, buf).
     bindE (dec_list read_entry (unat n) buf) (\<lambda>(es, buf).
       Inr \<lparr>command = Command c, num_entries = n, entries = es\<rparr>)))"

section \<open>The entry codec\<close>

definition enc_entry :: "RIPMessageEntry \<Rightarrow> byte list" where
  "enc_entry e = PutUint32 (entry_cost e) @ PutUint32 (entry_address e) @ PutUint32 (entry_mask e)"

lemma read_entry_Inr: "read_entry bs = Inr (e, rest) \<Longrightarrow> bs = enc_entry e @ rest"
  by (auto simp: read_entry_def enc_entry_def go_simps dest!: Read32_Inr)

lemma read_entry_enc: "read_entry (enc_entry e @ rest) = Inr (e, rest)"
  by (simp add: read_entry_def enc_entry_def)

lemma length_enc_entry [simp]: "length (enc_entry e) = 12"
  by (simp add: enc_entry_def)

lemma read_entry_fails: "(\<exists>e. read_entry bs = Inl e) \<longleftrightarrow> length bs < 12"
proof -
  have "read_entry bs = bindE (dec_list Read32 3 bs) (\<lambda>(vs, rest).
      Inr (\<lparr>entry_cost = vs ! 0, entry_address = vs ! 1, entry_mask = vs ! 2\<rparr>, rest))"
    by (simp add: read_entry_def numeral_3_eq_3 bindE_assoc case_prod_beta')
  then show ?thesis using c32.dec_list_fails [of 3 bs] by (simp add: go_simps split_beta)
qed

interpretation centry: fixed_codec enc_entry read_entry 12
  by unfold_locales (auto simp: read_entry_enc read_entry_fails dest: read_entry_Inr)

lemma marshal_entries_eq: "marshal_entries buf es = Inr (buf @ concat (map enc_entry es))"
  by (induction es arbitrary: buf) (simp_all add: Write32_def enc_entry_def)

lemma MarshalRIPMessage_eq:
  "MarshalRIPMessage m =
     Inr (PutUint16 (command_code (command m)) @ PutUint16 (num_entries m) @
          concat (map enc_entry (entries m)))"
  by (simp add: MarshalRIPMessage_def marshal_entries_eq Write16_def)

lemma UnmarshalRIPMessage_Inr:
  "UnmarshalRIPMessage bs = Inr m \<longleftrightarrow>
     (\<exists>rest. bs = PutUint16 (command_code (command m)) @ PutUint16 (num_entries m) @
                  concat (map enc_entry (entries m)) @ rest \<and>
             length (entries m) = unat (num_entries m))"
proof
  assume "UnmarshalRIPMessage bs = Inr m"
  then show "\<exists>rest. bs = PutUint16 (command_code (command m)) @ PutUint16 (num_entries m) @
                  concat (map enc_entry (entries m)) @ rest \<and>
             length (entries m) = unat (num_entries m)"
    by (auto simp: UnmarshalRIPMessage_def go_simps dest!: Read16_Inr centry.dec_list_consumes)
next
  assume "\<exists>rest. bs = PutUint16 (command_code (command m)) @ PutUint16 (num_entries m) @
                  concat (map enc_entry (entries m)) @ rest \<and>
             length (entries m) = unat (num_entries m)"
  then obtain rest where bs: "bs = PutUint16 (command_code (command m)) @
      PutUint16 (num_entries m) @ concat (map enc_entry (entries m)) @ rest"
    and len: "length (entries m) = unat (num_entries m)" by blast
  have "dec_list read_entry (unat (num_entries m)) (concat (map enc_entry (entries m)) @ rest) =
      Inr (entries m, rest)"
    unfolding len [symmetric] by (rule centry.dec_list_enc)
  then show "UnmarshalRIPMessage bs = Inr m"
    by (cases m; cases "command m") (simp add: UnmarshalRIPMessage_def bs)
qed

section \<open>Properties\<close>

text \<open>
  C2. Round trip. A message whose count field equals its number of entries marshals to
  \<open>4 + 12 * n\<close> bytes, and unmarshalling those bytes, whatever follows them in the datagram,
  gives the message back.
\<close>

theorem rip_message_roundtrip:
  assumes "unat (num_entries m) = length (entries m)"
  shows "\<exists>bs. MarshalRIPMessage m = Inr bs \<and> length bs = 4 + 12 * length (entries m) \<and>
    (\<forall>rest. UnmarshalRIPMessage (bs @ rest) = Inr m)"
  using assms
  by (auto simp: MarshalRIPMessage_eq UnmarshalRIPMessage_Inr centry.length_enc_list)

definition example_message :: RIPMessage where
  "example_message = \<lparr>command = RIP_RESPONSE, num_entries = 2,
     entries = [\<lparr>entry_cost = 1, entry_address = 0x0a010000, entry_mask = 24\<rparr>,
                \<lparr>entry_cost = 16, entry_address = 0x0a020000, entry_mask = 16\<rparr>]\<rparr>"

theorem rip_message_roundtrip_witness:
  "\<exists>bs. MarshalRIPMessage example_message = Inr bs \<and> length bs = 28 \<and>
     UnmarshalRIPMessage (bs @ [7, 7]) = Inr example_message"
  using rip_message_roundtrip [of example_message] by (auto simp: example_message_def)

text \<open>
  C3. What the decoder accepts. A datagram decodes to \<open>m\<close> exactly when it starts with the
  encoding of \<open>m\<close> and \<open>m\<close>'s count field is its number of entries, so a message has one
  encoding; decoding fails exactly when the 4-byte header, or one of the twelve-byte entries
  that header announces, is cut short.
\<close>

theorem rip_decode_accepts:
  "(UnmarshalRIPMessage bs = Inr m \<longleftrightarrow>
      length (entries m) = unat (num_entries m) \<and>
      (\<exists>out rest. MarshalRIPMessage m = Inr out \<and> bs = out @ rest)) \<and>
   ((\<exists>e. UnmarshalRIPMessage bs = Inl e) \<longleftrightarrow>
      length bs < 4 \<or> length bs < 4 + 12 * unat (Uint16 (bs ! 2) (bs ! 3)))"
proof
  show "UnmarshalRIPMessage bs = Inr m \<longleftrightarrow>
      length (entries m) = unat (num_entries m) \<and>
      (\<exists>out rest. MarshalRIPMessage m = Inr out \<and> bs = out @ rest)"
    by (auto simp: UnmarshalRIPMessage_Inr MarshalRIPMessage_eq)
next
  show "(\<exists>e. UnmarshalRIPMessage bs = Inl e) \<longleftrightarrow>
      length bs < 4 \<or> length bs < 4 + 12 * unat (Uint16 (bs ! 2) (bs ! 3))"
  proof (cases "length bs < 4")
    case True
    then have "UnmarshalRIPMessage bs \<noteq> Inr m'" for m'
      by (auto simp: UnmarshalRIPMessage_Inr)
    with True show ?thesis by (cases "UnmarshalRIPMessage bs") auto
  next
    case False
    then obtain c0 c1 n0 n1 rest where bs: "bs = c0 # c1 # n0 # n1 # rest"
      by (auto simp: not_less numeral_eq_Suc Suc_le_length_iff)
    have "UnmarshalRIPMessage bs = bindE (dec_list read_entry (unat (Uint16 n0 n1)) rest)
        (\<lambda>(es, _). Inr \<lparr>command = Command (Uint16 c0 c1), num_entries = Uint16 n0 n1, entries = es\<rparr>)"
      by (simp add: bs UnmarshalRIPMessage_def Read16_def)
    then show ?thesis
      using centry.dec_list_fails [of "unat (Uint16 n0 n1)" rest] bs
      by (simp add: go_simps split_beta)
  qed
qed

end
