(* ===== verification/Lnx_Types.thy ===== *)
theory Lnx_Types
  imports Netip
begin

text \<open>
  The data of a node's configuration (the structs of \<open>pkg/lnxconfig/lnxconfig.go\<close>): interfaces,
  neighbours, the routing mode, the RIP neighbours, the static routes and the timing parameters.
  A \<open>netip.AddrPort\<close> is a pair of an address and a port.
\<close>

type_synonym AddrPort = "Addr \<times> u16"

datatype RoutingMode = RoutingTypeNone | RoutingTypeStatic | RoutingTypeRIP

record InterfaceConfig =
  cfg_Name :: string
  AssignedIP :: Addr
  AssignedPrefix :: Prefix
  cfg_UDPAddr :: AddrPort

record NeighborConfig =
  DestAddr :: Addr
  nb_UDPAddr :: AddrPort
  InterfaceName :: string

record IPConfig =
  cfg_Interfaces :: "InterfaceConfig list"
  cfg_Neighbors :: "NeighborConfig list"
  cfg_RoutingMode :: RoutingMode
  RipNeighbors :: "Addr list"
  StaticRoutes :: "Prefix \<rightharpoonup> Addr"
  OriginatingPrefixes :: "Prefix list"
  RipPeriodicUpdateRate :: Duration
  RipTimeoutThreshold :: Duration
  TcpRtoMin :: Duration
  TcpRtoMax :: Duration

text \<open>The configuration \<open>ParseConfig\<close> starts from.\<close>

definition default_IPConfig :: IPConfig where
  "default_IPConfig = \<lparr>cfg_Interfaces = [], cfg_Neighbors = [], cfg_RoutingMode = RoutingTypeNone,
     RipNeighbors = [], StaticRoutes = Map.empty, OriginatingPrefixes = [],
     RipPeriodicUpdateRate = 5 * Second, RipTimeoutThreshold = 12 * Second,
     TcpRtoMin = 1000000, TcpRtoMax = 5 * Second\<rparr>"

end
