(* ===== verification/IP_Packet.thy ===== *)
theory IP_Packet
  imports Netip
begin

text \<open>
  The IP packet (\<open>pkg/ipstack/packet.go\<close>). The header codec (\<open>iptcp-headers\<close>) and the
  one's-complement sum (\<open>google/netstack\<close>) are other packages: they are the fields of the
  record \<open>ip_lib\<close> that the definitions take as an argument, and \<open>ip_lib_ok\<close> states what
  their documentation promises: parsing what was marshalled gives the header back, also when a
  payload follows it.
\<close>

section \<open>The header library\<close>

record IPv4Header =
  Version :: int
  Len :: int
  TOS :: int
  TotalLen :: int
  ID :: int
  Flags :: int
  FragOff :: int
  hdr_TTL :: int
  hdr_Protocol :: int
  hdr_Checksum :: int
  Src :: Addr
  Dst :: Addr
  Options :: "byte list"

record ip_lib =
  hdr_Marshal :: "IPv4Header \<Rightarrow> string + byte list"
  ParseHeader :: "byte list \<Rightarrow> string + IPv4Header"
  header_Checksum :: "byte list \<Rightarrow> u16 \<Rightarrow> u16"
  HeaderLen :: int

section \<open>Packets\<close>

type_synonym Protocol = u8

definition TEST_PROTOCOL :: Protocol where "TEST_PROTOCOL = 0"
definition TCP_PROTOCOL :: Protocol where "TCP_PROTOCOL = 6"
definition RIP_PROTOCOL :: Protocol where "RIP_PROTOCOL = 200"

text \<open>
  \<open>Payload\<close> is a Go slice: \<open>PayloadSpare\<close> holds the bytes of its backing array beyond its
  length, which a re-slicing of the payload can reach.
\<close>

record IPPacket =
  SourceIP :: Addr
  DestinationIP :: Addr
  TTL :: u8
  PProtocol :: Protocol
  Payload :: "byte list"
  PayloadSpare :: "byte list"
  Checksum :: int

text \<open>\<open>IPPacket{}\<close>, which \<open>UnmarshalPacket\<close> returns beside an error.\<close>

definition zeroPacket :: IPPacket where
  "zeroPacket = \<lparr>SourceIP = NoAddr, DestinationIP = NoAddr, TTL = 0, PProtocol = 0,
     Payload = [], PayloadSpare = [], Checksum = 0\<rparr>"

definition packet_header :: "ip_lib \<Rightarrow> IPPacket \<Rightarrow> int \<Rightarrow> IPv4Header" where
  "packet_header lib p cs = \<lparr>Version = 4, Len = 20, TOS = 0,
     TotalLen = HeaderLen lib + int (length (Payload p)), ID = 0, Flags = 0, FragOff = 0,
     hdr_TTL = uint (TTL p), hdr_Protocol = uint (PProtocol p), hdr_Checksum = cs,
     Src = SourceIP p, Dst = DestinationIP p, Options = []\<rparr>"

definition CalculateChecksum :: "ip_lib \<Rightarrow> IPPacket \<Rightarrow> int" where
  "CalculateChecksum lib p =
     (case hdr_Marshal lib (packet_header lib p 0) of
        Inl err \<Rightarrow> 0
      | Inr bytes_before_checksum \<Rightarrow> uint (header_Checksum lib bytes_before_checksum 0) XOR 0xffff)"

definition CreatePacket ::
  "ip_lib \<Rightarrow> Addr \<Rightarrow> Addr \<Rightarrow> u8 \<Rightarrow> Protocol \<Rightarrow> byte list \<Rightarrow> IPPacket" where
  "CreatePacket lib source_ip destination_ip ttl protocol payload =
     (let packet = \<lparr>SourceIP = source_ip, DestinationIP = destination_ip, TTL = ttl,
            PProtocol = protocol, Payload = payload, PayloadSpare = [], Checksum = 0\<rparr>
      in packet\<lparr>Checksum := CalculateChecksum lib packet\<rparr>)"

text \<open>\<open>Marshal\<close>: an error of the header library is fatal to the process.\<close>

definition Marshal :: "ip_lib \<Rightarrow> IPPacket \<Rightarrow> byte list go" where
  "Marshal lib p =
     (case hdr_Marshal lib (packet_header lib p (Checksum p)) of
        Inl err \<Rightarrow> Panic
      | Inr headerBytes \<Rightarrow> Ret (headerBytes @ Payload p))"

text \<open>
  \<open>UnmarshalPacket\<close> on \<open>data = buffer[:n]\<close>, \<open>spare\<close> being the rest of the buffer. The
  slice \<open>data[hdr.Len:]\<close> panics when the parsed length runs past the data.
\<close>

definition UnmarshalPacket :: "ip_lib \<Rightarrow> byte list \<Rightarrow> byte list \<Rightarrow> (string + IPPacket) go" where
  "UnmarshalPacket lib data spare =
     (case ParseHeader lib data of
        Inl err \<Rightarrow> Ret (Inl err)
      | Inr hdr \<Rightarrow>
          if Len hdr < 0 \<or> int (length data) < Len hdr then Panic
          else Ret (Inr \<lparr>SourceIP = Src hdr, DestinationIP = Dst hdr,
                 TTL = word_of_int (hdr_TTL hdr), PProtocol = word_of_int (hdr_Protocol hdr),
                 Payload = drop (nat (Len hdr)) data, PayloadSpare = spare,
                 Checksum = hdr_Checksum hdr\<rparr>))"

definition ValidatePacket :: "ip_lib \<Rightarrow> IPPacket \<Rightarrow> bool" where
  "ValidatePacket lib packet =
     (if TTL packet = 0 then False
      else if CalculateChecksum lib packet \<noteq> Checksum packet then False
      else True)"

section \<open>What the code relies on\<close>

text \<open>
  The documented contract of the header package: a header the program builds marshals to its
  \<open>HeaderLen = 20\<close> bytes, and parsing those bytes with any payload behind them returns the
  header.
\<close>

definition ip_lib_ok :: "ip_lib \<Rightarrow> bool" where
  "ip_lib_ok lib \<longleftrightarrow>
     HeaderLen lib = 20 \<and>
     (\<forall>p cs. 0 \<le> cs \<longrightarrow> cs < 65536 \<longrightarrow> (\<exists>a b. SourceIP p = IPv4 a \<and> DestinationIP p = IPv4 b) \<longrightarrow>
        length (Payload p) \<le> 65515 \<longrightarrow>
        (\<exists>bs. hdr_Marshal lib (packet_header lib p cs) = Inr bs \<and> length bs = 20 \<and>
              (\<forall>payload. length payload = length (Payload p) \<longrightarrow>
                 ParseHeader lib (bs @ payload) = Inr (packet_header lib p cs))))"

definition v4_packet :: "IPPacket \<Rightarrow> bool" where
  "v4_packet p \<longleftrightarrow> (\<exists>a b. SourceIP p = IPv4 a \<and> DestinationIP p = IPv4 b) \<and> length (Payload p) \<le> 65515"

section \<open>Lemmas\<close>

lemma CalculateChecksum_cong:
  "SourceIP p = SourceIP q \<Longrightarrow> DestinationIP p = DestinationIP q \<Longrightarrow> TTL p = TTL q \<Longrightarrow>
   PProtocol p = PProtocol q \<Longrightarrow> length (Payload p) = length (Payload q) \<Longrightarrow>
   CalculateChecksum lib p = CalculateChecksum lib q"
  by (simp add: CalculateChecksum_def packet_header_def)

lemma CalculateChecksum_Checksum [simp]:
  "CalculateChecksum lib (p\<lparr>Checksum := c\<rparr>) = CalculateChecksum lib p"
  by (rule CalculateChecksum_cong) simp_all

lemma CalculateChecksum_range: "0 \<le> CalculateChecksum lib p" "CalculateChecksum lib p < 65536"
proof -
  have "uint (w :: u16) XOR 0xffff = uint (NOT w)" for w
  proof -
    have "uint (NOT w) = uint (w XOR (- 1))" by (simp add: bit.xor_one_right)
    also have "\<dots> = uint w XOR uint (- 1 :: u16)" by (rule uint_xor)
    also have "uint (- 1 :: u16) = 0xffff" by (simp add: unsigned_minus_1_eq_mask mask_eq_exp_minus_1)
    finally show ?thesis by simp
  qed
  then show "0 \<le> CalculateChecksum lib p" "CalculateChecksum lib p < 65536"
    using uint_lt2p [of "NOT (w :: u16)" for w]
    by (auto simp: CalculateChecksum_def split: sum.splits)
qed

lemma ValidatePacket_recomputed [simp]:
  "ValidatePacket lib (p\<lparr>Checksum := CalculateChecksum lib p\<rparr>) \<longleftrightarrow> TTL p \<noteq> 0"
  by (simp add: ValidatePacket_def)

lemma ValidatePacket_Create [simp]:
  "ValidatePacket lib (CreatePacket lib s d ttl pr data) \<longleftrightarrow> ttl \<noteq> 0"
  using ValidatePacket_recomputed by (simp add: CreatePacket_def Let_def del: IPPacket.update_convs)

lemma ValidatePacket_zero [simp]: "\<not> ValidatePacket lib zeroPacket"
  by (simp add: ValidatePacket_def zeroPacket_def)

lemma Unmarshal_Marshal:
  assumes "ip_lib_ok lib" and "v4_packet p" and "0 \<le> Checksum p" and "Checksum p < 65536"
  shows "\<exists>bs. Marshal lib p = Ret bs \<and> length bs = 20 + length (Payload p) \<and>
    UnmarshalPacket lib bs spare = Ret (Inr (p\<lparr>PayloadSpare := spare\<rparr>))"
proof -
  from assms obtain bs where
    m: "hdr_Marshal lib (packet_header lib p (Checksum p)) = Inr bs" "length bs = 20" and
    r: "ParseHeader lib (bs @ Payload p) = Inr (packet_header lib p (Checksum p))"
    unfolding ip_lib_ok_def v4_packet_def by blast
  then show ?thesis
    by (simp add: Marshal_def UnmarshalPacket_def packet_header_def)
qed

end
