(* ===== verification/IP_Stack.thy ===== *)
theory IP_Stack
  imports Forwarding IP_Packet Lnx_Types
begin

text \<open>
  Interfaces and the IP stack (\<open>pkg/ipstack/interface.go\<close>, \<open>ipstack.go\<close>,
  \<open>initialize.go\<close>): sending on an interface, receiving, local delivery, forwarding, and the
  construction of a node from its configuration.
  \<^item> \<open>range\<close> over the map of interfaces visits them in an unspecified order; every such loop
    takes its order as an argument, a list of names. \<open>order_of\<close> says that a list enumerates
    the interfaces.
  \<^item> The effect of receiving one packet is a value: it was dropped, handed to a protocol
    handler, or written to a UDP socket. What the socket does with the bytes is outside.
  \<^item> A nil dereference (an interface name that is not in the map) is \<open>Panic\<close>.
\<close>

section \<open>State\<close>

record Interface =
  Name :: string
  IPAddr :: Addr
  Netmask :: Prefix
  Neighbors :: "Addr \<rightharpoonup> AddrPort"
  Down :: bool

text \<open>The handlers the two programs register: closures in Go, names here.\<close>

datatype HandlerFunc = PrintPacket | RIPHandler | TCPHandler

record IPStack =
  Interfaces :: "string \<rightharpoonup> Interface"
  ForwardingTable :: ForwardingTable
  stackConfig :: IPConfig
  Handlers :: "Protocol \<rightharpoonup> HandlerFunc"

type_synonym order = "string list"

definition order_of :: "IPStack \<Rightarrow> order \<Rightarrow> bool" where
  "order_of s ord \<longleftrightarrow> distinct ord \<and> set ord = dom (Interfaces s)"

datatype ip_effect =
    Invalid
  | NoHandler
  | Handle HandlerFunc IPPacket
  | NoRoute
  | SendFailed string
  | Sent AddrPort "byte list"

section \<open>Interfaces\<close>

text \<open>\<open>SendPacket\<close>: an error, or the datagram and the address it is written to.\<close>

definition SendPacket :: "ip_lib \<Rightarrow> Interface \<Rightarrow> IPPacket \<Rightarrow> Addr \<Rightarrow> (string + (AddrPort \<times> byte list)) go" where
  "SendPacket lib i packet nextHop =
     (if Down i then Ret (Inl ''interface is down'')
      else bindG (Marshal lib packet) (\<lambda>marshalled_packet.
        (case Neighbors i nextHop of
           None \<Rightarrow> Ret (Inl ''nextHop not in neighbors table'')
         | Some udp \<Rightarrow> Ret (Inr (udp, marshalled_packet)))))"

definition find_iface :: "IPStack \<Rightarrow> order \<Rightarrow> (Interface \<Rightarrow> bool) \<Rightarrow> string option" where
  "find_iface s ord P = List.find (\<lambda>n. case Interfaces s n of Some i \<Rightarrow> P i | None \<Rightarrow> False) ord"

definition getInterfaceForIP :: "IPStack \<Rightarrow> order \<Rightarrow> Addr \<Rightarrow> string" where
  "getInterfaceForIP s ord ip =
     (case find_iface s ord (\<lambda>i. Contains (Netmask i) ip) of Some name \<Rightarrow> name | None \<Rightarrow> [])"

section \<open>Receiving and sending\<close>

definition RegisterHandler :: "IPStack \<Rightarrow> Protocol \<Rightarrow> HandlerFunc \<Rightarrow> IPStack" where
  "RegisterHandler s protocol handler = s\<lparr>Handlers := (Handlers s)(protocol \<mapsto> handler)\<rparr>"

definition HandlePacket :: "IPStack \<Rightarrow> IPPacket \<Rightarrow> ip_effect" where
  "HandlePacket s packet =
     (case Handlers s (PProtocol packet) of
        None \<Rightarrow> NoHandler
      | Some handler \<Rightarrow> Handle handler packet)"

text \<open>\<open>packet.TTL--\<close>, the new checksum, and \<open>SendPacket\<close> whose error is ignored.\<close>

definition forward_on :: "ip_lib \<Rightarrow> Interface \<Rightarrow> IPPacket \<Rightarrow> Addr \<Rightarrow> ip_effect go" where
  "forward_on lib nextIF packet nextHop =
     (let packet = packet\<lparr>TTL := TTL packet - 1\<rparr>;
          packet = packet\<lparr>Checksum := CalculateChecksum lib packet\<rparr>
      in mapG (\<lambda>r. case r of Inl e \<Rightarrow> SendFailed e | Inr (udp, bytes) \<Rightarrow> Sent udp bytes)
           (SendPacket lib nextIF packet nextHop))"

definition ReceivePacket :: "ip_lib \<Rightarrow> order \<Rightarrow> order \<Rightarrow> IPPacket \<Rightarrow> IPStack \<Rightarrow> ip_effect go" where
  "ReceivePacket lib ord1 ord2 packet s =
     (if \<not> ValidatePacket lib packet then Ret Invalid
      else case find_iface s ord1 (\<lambda>i. \<not> Down i \<and> IPAddr i = DestinationIP packet) of
        Some _ \<Rightarrow> Ret (HandlePacket s packet)
      | None \<Rightarrow>
         (case find_iface s ord2 (\<lambda>i. Contains (Netmask i) (DestinationIP packet)) of
            Some n \<Rightarrow>
              (case Interfaces s n of
                 None \<Rightarrow> Panic
               | Some nextIF \<Rightarrow> forward_on lib nextIF packet (DestinationIP packet))
          | None \<Rightarrow>
             (case NextHop_ft (ForwardingTable s) (DestinationIP packet) of
                (interfaceName, nextHop) \<Rightarrow>
                  if interfaceName = [] then Ret NoRoute
                  else case Interfaces s interfaceName of
                         None \<Rightarrow> Panic
                       | Some nextIF \<Rightarrow> forward_on lib nextIF packet nextHop)))"

definition SendIP ::
  "ip_lib \<Rightarrow> order \<Rightarrow> order \<Rightarrow> IPStack \<Rightarrow> Addr \<Rightarrow> Protocol \<Rightarrow> u8 \<Rightarrow> byte list \<Rightarrow> (string + ip_effect) go" where
  "SendIP lib ord1 ord2 s dst protocol ttl data =
     (case NextHop_ft (ForwardingTable s) dst of
        (interfaceName, _) \<Rightarrow>
          if interfaceName = [] then Ret (Inl ''no route to destination'')
          else case Interfaces s interfaceName of
                 None \<Rightarrow> Panic
               | Some nextIF \<Rightarrow>
                   mapG Inr (ReceivePacket lib ord1 ord2
                     (CreatePacket lib (IPAddr nextIF) dst ttl protocol data) s))"

text \<open>
  One round of \<open>InterfaceListen\<close>: a read of at most 1040 bytes into a fresh zeroed buffer
  (a read error leaves 0 bytes), then \<open>UnmarshalPacket\<close>, whose error is only logged, and
  \<open>ReceivePacket\<close>. \<open>None\<close> is a round in which the interface is down.
\<close>

definition listen_round ::
  "ip_lib \<Rightarrow> order \<Rightarrow> order \<Rightarrow> Interface \<Rightarrow> IPStack \<Rightarrow> string + byte list \<Rightarrow> ip_effect option go" where
  "listen_round lib ord1 ord2 i s read =
     (if Down i then Ret None
      else
        let data = (case read of Inl err \<Rightarrow> [] | Inr datagram \<Rightarrow> take 1040 datagram);
            spare = replicate (1040 - length data) 0
        in bindG (UnmarshalPacket lib data spare) (\<lambda>r.
             let packet = (case r of Inl err \<Rightarrow> zeroPacket | Inr p \<Rightarrow> p)
             in mapG Some (ReceivePacket lib ord1 ord2 packet s)))"

section \<open>Initialisation\<close>

definition new_interface :: "InterfaceConfig \<Rightarrow> Interface" where
  "new_interface iface = \<lparr>Name = cfg_Name iface, IPAddr = AssignedIP iface,
     Netmask = AssignedPrefix iface, Neighbors = Map.empty, Down = False\<rparr>"

text \<open>The sockets: \<open>listens\<close> is the outcome of \<open>net.ListenUDP\<close> for an address.\<close>

fun init_interfaces ::
  "(AddrPort \<Rightarrow> bool) \<Rightarrow> InterfaceConfig list \<Rightarrow> (string \<rightharpoonup> Interface) \<Rightarrow> string + (string \<rightharpoonup> Interface)" where
  "init_interfaces listens [] m = Inr m"
| "init_interfaces listens (iface # ifaces) m =
     (if listens (cfg_UDPAddr iface)
      then init_interfaces listens ifaces (m(cfg_Name iface \<mapsto> new_interface iface))
      else Inl ''listen udp'')"

fun init_neighbors :: "NeighborConfig list \<Rightarrow> (string \<rightharpoonup> Interface) \<Rightarrow> (string \<rightharpoonup> Interface) go" where
  "init_neighbors [] m = Ret m"
| "init_neighbors (nb # nbs) m =
     (case m (InterfaceName nb) of
        None \<Rightarrow> Panic
      | Some i \<Rightarrow> init_neighbors nbs
          (m(InterfaceName nb \<mapsto> i\<lparr>Neighbors := (Neighbors i)(DestAddr nb \<mapsto> nb_UDPAddr nb)\<rparr>)))"

definition local_route :: "InterfaceConfig \<Rightarrow> ForwardingTableEntry" where
  "local_route iface = \<lparr>DestinationPrefix = AssignedPrefix iface, NextHop = AssignedIP iface,
     Interface = cfg_Name iface, Metric = 0, Source = SourceLocal, LastUpdated = 0\<rparr>"

definition static_route :: "IPStack \<Rightarrow> order \<Rightarrow> Prefix \<times> Addr \<Rightarrow> ForwardingTableEntry" where
  "static_route s ord r = \<lparr>DestinationPrefix = fst r, NextHop = snd r,
     Interface = getInterfaceForIP s ord (snd r), Metric = 1, Source = SourceStatic, LastUpdated = 0\<rparr>"

text \<open>
  \<open>InitNode\<close> after a successful parse: \<open>routes\<close> is the order in which the range over the
  map of static routes visits them.
\<close>

definition InitNode ::
  "(AddrPort \<Rightarrow> bool) \<Rightarrow> order \<Rightarrow> (Prefix \<times> Addr) list \<Rightarrow> IPConfig \<Rightarrow> (string + IPStack) go" where
  "InitNode listens ord routes ipconfig =
     (case init_interfaces listens (cfg_Interfaces ipconfig) Map.empty of
        Inl err \<Rightarrow> Ret (Inl err)
      | Inr ip_interfaces \<Rightarrow>
          bindG (init_neighbors (cfg_Neighbors ipconfig) ip_interfaces) (\<lambda>ip_interfaces.
            let s = \<lparr>Interfaces = ip_interfaces, ForwardingTable = [], stackConfig = ipconfig,
                     Handlers = Map.empty\<rparr>;
                s = s\<lparr>ForwardingTable :=
                       foldl AddRoute (ForwardingTable s) (map local_route (cfg_Interfaces ipconfig))\<rparr>;
                s = s\<lparr>ForwardingTable :=
                       foldl AddRoute (ForwardingTable s) (map (static_route s ord) routes)\<rparr>
            in Ret (Inr s)))"

section \<open>Lemmas\<close>

lemma find_iface_Some:
  "find_iface s ord P = Some n \<Longrightarrow> n \<in> set ord \<and> (\<exists>i. Interfaces s n = Some i \<and> P i)"
  unfolding find_iface_def by (drule find_in_set) (auto split: option.splits)

lemma find_iface_None:
  "order_of s ord \<Longrightarrow> find_iface s ord P = None \<longleftrightarrow> (\<forall>n i. Interfaces s n = Some i \<longrightarrow> \<not> P i)"
  unfolding find_iface_def find_None order_of_def by (force split: option.splits)

lemma find_iface_unique:
  assumes "order_of s ord" "order_of s ord'"
    and "\<And>m n i j. Interfaces s m = Some i \<Longrightarrow> Interfaces s n = Some j \<Longrightarrow> P i \<Longrightarrow> P j \<Longrightarrow> m = n"
  shows "find_iface s ord P = find_iface s ord' P"
proof (cases "find_iface s ord P")
  case None
  with assms find_iface_None [of s ord P] find_iface_None [of s ord' P] show ?thesis by metis
next
  case (Some n)
  then obtain i where i: "Interfaces s n = Some i" "P i" by (auto dest: find_iface_Some)
  with assms(2) find_iface_None [of s ord' P] obtain m where m: "find_iface s ord' P = Some m"
    by fastforce
  with find_iface_Some [of s ord' P m] i assms(3) [of m _ n i] show ?thesis
    using Some by fastforce
qed

lemma forward_on_Sent:
  assumes "forward_on lib i p nh = Ret (Sent udp bs)"
  shows "\<not> Down i \<and> Neighbors i nh = Some udp \<and>
    (let q = p\<lparr>TTL := TTL p - 1\<rparr> in Marshal lib (q\<lparr>Checksum := CalculateChecksum lib q\<rparr>) = Ret bs)"
proof -
  let ?q = "p\<lparr>TTL := TTL p - 1\<rparr>"
  let ?r = "?q\<lparr>Checksum := CalculateChecksum lib ?q\<rparr>"
  have f: "forward_on lib i p nh = mapG (\<lambda>r. case r of Inl e \<Rightarrow> SendFailed e | Inr (udp, bytes) \<Rightarrow> Sent udp bytes)
      (SendPacket lib i ?r nh)"
    by (simp add: forward_on_def Let_def)
  from assms have "SendPacket lib i ?r nh = Ret (Inr (udp, bs))"
    unfolding f mapG_eq_Ret
    by (elim exE conjE) (auto split: sum.split_asm prod.split_asm)
  then show ?thesis
    by (cases "Marshal lib ?r") (auto simp: SendPacket_def Let_def split: if_splits option.splits)
qed

lemma ReceivePacket_local:
  assumes "ValidatePacket lib p" and "order_of s ord1"
    and "Interfaces s n = Some i" "\<not> Down i" "IPAddr i = DestinationIP p"
  shows "ReceivePacket lib ord1 ord2 p s = Ret (HandlePacket s p)"
proof -
  have "find_iface s ord1 (\<lambda>i. \<not> Down i \<and> IPAddr i = DestinationIP p) \<noteq> None"
    using assms(3-5) by (auto simp only: find_iface_None [OF assms(2)])
  with assms(1) show ?thesis by (auto simp: ReceivePacket_def)
qed

text \<open>The five ways a received packet can go.\<close>

lemma ReceivePacket_cases:
  obtains
    (invalid) "\<not> ValidatePacket lib p" "ReceivePacket lib ord1 ord2 p s = Ret Invalid"
  | (mine) "ValidatePacket lib p" "ReceivePacket lib ord1 ord2 p s = Ret (HandlePacket s p)"
      "\<exists>n i. Interfaces s n = Some i \<and> \<not> Down i \<and> IPAddr i = DestinationIP p"
  | (forwarded) n i nh where "ValidatePacket lib p" "Interfaces s n = Some i"
      "ReceivePacket lib ord1 ord2 p s = forward_on lib i p nh"
      "find_iface s ord1 (\<lambda>i. \<not> Down i \<and> IPAddr i = DestinationIP p) = None"
      "nh = DestinationIP p \<and> Contains (Netmask i) nh \<or> NextHop_ft (ForwardingTable s) (DestinationIP p) = (n, nh)"
  | (no_route) "ValidatePacket lib p" "ReceivePacket lib ord1 ord2 p s = Ret NoRoute"
      "fst (NextHop_ft (ForwardingTable s) (DestinationIP p)) = []"
  | (panic) n nh where "ReceivePacket lib ord1 ord2 p s = Panic"
      "NextHop_ft (ForwardingTable s) (DestinationIP p) = (n, nh)" "n \<noteq> []" "Interfaces s n = None"
proof -
  let ?me = "find_iface s ord1 (\<lambda>i. \<not> Down i \<and> IPAddr i = DestinationIP p)"
  let ?direct = "find_iface s ord2 (\<lambda>i. Contains (Netmask i) (DestinationIP p))"
  obtain n nh where hop: "NextHop_ft (ForwardingTable s) (DestinationIP p) = (n, nh)" by fastforce
  note R = ReceivePacket_def [of lib ord1 ord2 p s]
  consider "\<not> ValidatePacket lib p"
    | m where "ValidatePacket lib p" "?me = Some m"
    | m where "ValidatePacket lib p" "?me = None" "?direct = Some m"
    | "ValidatePacket lib p" "?me = None" "?direct = None" by fastforce
  then show thesis
  proof cases
    case 1
    then show ?thesis using invalid by (simp add: R)
  next
    case (2 m)
    then show ?thesis using mine find_iface_Some [OF 2(2)] by (auto simp: R)
  next
    case (3 m)
    then obtain i where "Interfaces s m = Some i" "Contains (Netmask i) (DestinationIP p)"
      by (auto dest: find_iface_Some)
    with 3 show ?thesis using forwarded [of m i "DestinationIP p"] by (simp add: R)
  next
    case 4
    show ?thesis
    proof (cases "n = []")
      case True
      with 4 hop show ?thesis using no_route by (simp add: R)
    next
      case False
      with 4 hop show ?thesis
        using forwarded [of n _ nh] panic [of n nh] by (cases "Interfaces s n") (simp_all add: R)
    qed
  qed
qed

lemma HandlePacket_not_Sent [simp]: "HandlePacket s p \<noteq> Sent udp bs" "Sent udp bs \<noteq> HandlePacket s p"
  by (simp_all add: HandlePacket_def split: option.splits)

lemma ReceivePacket_Sent:
  assumes "ReceivePacket lib ord1 ord2 p s = Ret (Sent udp bs)"
  shows "ValidatePacket lib p \<and> (\<exists>n i nh. Interfaces s n = Some i \<and> \<not> Down i \<and>
    Neighbors i nh = Some udp \<and> forward_on lib i p nh = Ret (Sent udp bs))"
proof (cases rule: ReceivePacket_cases [of lib p ord1 ord2 s])
  case (forwarded n i nh)
  with assms have "forward_on lib i p nh = Ret (Sent udp bs)" by simp
  with forward_on_Sent [OF this] forwarded show ?thesis by blast
qed (use assms in auto)

lemma forward_on_decodes:
  assumes lib: "ip_lib_ok lib" and v4: "v4_packet p" and "forward_on lib i p nh = Ret (Sent udp bs)"
  shows "UnmarshalPacket lib bs spare =
    (let q = p\<lparr>TTL := TTL p - 1\<rparr>
     in Ret (Inr (q\<lparr>Checksum := CalculateChecksum lib q, PayloadSpare := spare\<rparr>)))"
proof -
  let ?q = "p\<lparr>TTL := TTL p - 1\<rparr>"
  let ?r = "?q\<lparr>Checksum := CalculateChecksum lib ?q\<rparr>"
  have "v4_packet ?r" using v4 by (simp add: v4_packet_def)
  moreover have "0 \<le> Checksum ?r" "Checksum ?r < 65536" by (simp_all add: CalculateChecksum_range)
  moreover have "Marshal lib ?r = Ret bs" using forward_on_Sent [OF assms(3)] by (simp add: Let_def)
  ultimately show ?thesis
    using Unmarshal_Marshal [OF lib, of ?r spare] by (auto simp: Let_def)
qed

section \<open>The invariant of a node\<close>

text \<open>
  Every route's interface exists (or is empty: no route), prefixes are distinct, and every
  interface is stored under its own name.
\<close>

definition routes_ok :: "IPStack \<Rightarrow> ForwardingTableEntry \<Rightarrow> bool" where
  "routes_ok s e \<longleftrightarrow> Interface e = [] \<or> Interface e \<in> dom (Interfaces s)"

definition stack_ok :: "IPStack \<Rightarrow> bool" where
  "stack_ok s \<longleftrightarrow> table_ok (ForwardingTable s) \<and> (\<forall>e \<in> set (ForwardingTable s). routes_ok s e) \<and>
     (\<forall>n i. Interfaces s n = Some i \<longrightarrow> Name i = n)"

lemma getInterfaceForIP_ok:
  "order_of s ord \<Longrightarrow> getInterfaceForIP s ord ip = [] \<or> getInterfaceForIP s ord ip \<in> dom (Interfaces s)"
  by (auto simp: getInterfaceForIP_def split: option.splits dest: find_iface_Some)

lemma NextHop_ft_in_table:
  "NextHop_ft ft d = (n, nh) \<Longrightarrow> n \<noteq> [] \<Longrightarrow> \<exists>e \<in> set ft. Interface e = n \<and> NextHop e = nh"
  using best_route_some [of "matching ft d"] matching_pos [of ft d]
  by (cases "matching ft d = []")
     (auto simp: NextHop_ft_best best_route_def matching_Contains split: if_splits)

definition marshals :: "ip_lib \<Rightarrow> bool" where
  "marshals lib \<longleftrightarrow> (\<forall>p. returns (Marshal lib p))"

lemma forward_on_returns: "marshals lib \<Longrightarrow> returns (forward_on lib i p nh)"
  by (auto simp: forward_on_def SendPacket_def Let_def marshals_def
      intro!: returns_bindG split: option.splits)

lemma NextHop_iface: "stack_ok s \<Longrightarrow> NextHop_ft (ForwardingTable s) d = (n, nh) \<Longrightarrow> n \<noteq> [] \<Longrightarrow>
  Interfaces s n \<noteq> None"
  using NextHop_ft_in_table [of "ForwardingTable s" d n nh]
  by (fastforce simp: stack_ok_def routes_ok_def)

lemma ReceivePacket_returns:
  assumes "stack_ok s" and "marshals lib"
  shows "returns (ReceivePacket lib ord1 ord2 p s)"
proof (cases rule: ReceivePacket_cases [of lib p ord1 ord2 s])
  case (panic n nh)
  with NextHop_iface [OF assms(1)] show ?thesis by blast
qed (use forward_on_returns [OF assms(2)] in auto)

lemma SendIP_returns:
  assumes "stack_ok s" and "marshals lib"
  shows "returns (SendIP lib ord1 ord2 s dst pr ttl data)"
  using NextHop_iface [OF assms(1), of dst] ReceivePacket_returns [OF assms]
  by (auto simp: SendIP_def split: option.splits prod.splits)

end
