(* ===== verification/IP_Example.thy ===== *)
theory IP_Example
  imports IP_Stack
begin

text \<open>
  A concrete instance of the header library, for witnesses: the 20-byte IPv4 header without
  options, and a plain byte sum in place of the one's-complement sum (nothing in the contract
  \<open>ip_lib_ok\<close> depends on it); and a small node with one interface and one neighbour. Nothing
  in the model refers to this theory.
\<close>

definition ex_Marshal :: "IPv4Header \<Rightarrow> string + byte list" where
  "ex_Marshal h =
     (case (Src h, Dst h) of
        (IPv4 s, IPv4 d) \<Rightarrow>
          Inr ([0x45, 0] @ PutUint16 (word_of_int (TotalLen h)) @ [0, 0, 0, 0] @
               [word_of_int (hdr_TTL h), word_of_int (hdr_Protocol h)] @
               PutUint16 (word_of_int (hdr_Checksum h)) @ PutUint32 s @ PutUint32 d)
      | _ \<Rightarrow> Inl ''not an IPv4 header'')"

fun ex_Parse :: "byte list \<Rightarrow> string + IPv4Header" where
  "ex_Parse (v # tos # l0 # l1 # i0 # i1 # f0 # f1 # t # p # c0 # c1 #
             s0 # s1 # s2 # s3 # d0 # d1 # d2 # d3 # rest) =
     (if v = 0x45 then
        Inr \<lparr>Version = 4, Len = 20, TOS = uint tos, TotalLen = uint (Uint16 l0 l1),
             ID = uint (Uint16 i0 i1), Flags = 0, FragOff = uint (Uint16 f0 f1),
             hdr_TTL = uint t, hdr_Protocol = uint p, hdr_Checksum = uint (Uint16 c0 c1),
             Src = IPv4 (Uint32 s0 s1 s2 s3), Dst = IPv4 (Uint32 d0 d1 d2 d3), Options = []\<rparr>
      else Inl ''unsupported header'')"
| "ex_Parse bs = Inl ''header too short''"

definition ex_Sum :: "byte list \<Rightarrow> u16 \<Rightarrow> u16" where
  "ex_Sum bs start = fold (\<lambda>b acc. acc + ucast b) bs start"

definition ex_lib :: ip_lib where
  "ex_lib = \<lparr>hdr_Marshal = ex_Marshal, ParseHeader = ex_Parse, header_Checksum = ex_Sum,
     HeaderLen = 20\<rparr>"

lemma uint_of_int_u16: "0 \<le> x \<Longrightarrow> x < 65536 \<Longrightarrow> uint (word_of_int x :: u16) = x"
  by (simp add: unsigned_of_int take_bit_int_eq_self)

lemma ex_Parse_Marshal:
  assumes "0 \<le> cs" "cs < 65536" and "SourceIP p = IPv4 a" "DestinationIP p = IPv4 b"
    and "length (Payload p) \<le> 65515"
  shows "\<exists>bs. ex_Marshal (packet_header ex_lib p cs) = Inr bs \<and> length bs = 20 \<and>
    (\<forall>payload. ex_Parse (bs @ payload) = Inr (packet_header ex_lib p cs))"
proof -
  have len: "uint (word_of_int (20 + int (length (Payload p))) :: u16) = 20 + int (length (Payload p))"
    using assms(5) by (intro uint_of_int_u16) auto
  from assms(1,2) have cs: "uint (word_of_int cs :: u16) = cs" by (rule uint_of_int_u16)
  show ?thesis
    using assms(3,4) len cs
    by (simp add: ex_Marshal_def packet_header_def ex_lib_def PutUint16_def PutUint32_def)
qed

lemma ex_lib_ok: "ip_lib_ok ex_lib"
  using ex_Parse_Marshal
  by (simp add: ip_lib_ok_def ex_lib_def [symmetric]) (fastforce simp: ex_lib_def)

end
