(* ===== verification/IP_Props.thy ===== *)
theory IP_Props
  imports IP_Stack IP_Example
begin

text \<open>
  What the IP layer guarantees: the node built by \<open>InitNode\<close> satisfies the invariant
  \<open>stack_ok\<close>; a packet is delivered locally exactly when it is addressed to an interface that
  is up; a forwarded packet leaves an interface that is up with its TTL decremented; and on any
  path through any nodes a packet is transmitted at most as often as its TTL says.
\<close>

section \<open>Initialisation\<close>

definition named :: "(string \<rightharpoonup> Interface) \<Rightarrow> bool" where
  "named m \<longleftrightarrow> (\<forall>n i. m n = Some i \<longrightarrow> Name i = n)"

lemma named_upd: "named m \<Longrightarrow> Name i = n \<Longrightarrow> named (m(n \<mapsto> i))"
  by (simp add: named_def)

lemma Name_new_interface [simp]: "Name (new_interface c) = cfg_Name c"
  by (simp add: new_interface_def)

lemma init_interfaces_Inr:
  "init_interfaces listens cfgs m = Inr m' \<Longrightarrow> named m \<Longrightarrow>
   named m' \<and> dom m' = dom m \<union> cfg_Name ` set cfgs"
proof (induction cfgs arbitrary: m)
  case (Cons c cfgs)
  then have step: "init_interfaces listens cfgs (m(cfg_Name c \<mapsto> new_interface c)) = Inr m'"
    by (simp split: if_splits)
  have "named (m(cfg_Name c \<mapsto> new_interface c))" using Cons.prems(2) by (rule named_upd) simp
  from Cons.IH [OF step this] show ?case by (simp only: dom_fun_upd) auto
qed simp

lemma init_interfaces_Inl:
  "(\<exists>e. init_interfaces listens cfgs m = Inl e) \<longleftrightarrow> (\<exists>c \<in> set cfgs. \<not> listens (cfg_UDPAddr c))"
  by (induction cfgs arbitrary: m) auto

lemma init_neighbors_cases:
  "named m \<Longrightarrow>
   (if InterfaceName ` set nbs \<subseteq> dom m
    then (\<exists>m'. init_neighbors nbs m = Ret m' \<and> named m' \<and> dom m' = dom m)
    else init_neighbors nbs m = Panic)"
proof (induction nbs arbitrary: m)
  case (Cons nb nbs)
  show ?case
  proof (cases "m (InterfaceName nb)")
    case (Some i)
    let ?m = "m(InterfaceName nb \<mapsto> i\<lparr>Neighbors := (Neighbors i)(DestAddr nb \<mapsto> nb_UDPAddr nb)\<rparr>)"
    have "named ?m"
      using Cons.prems Some by (intro named_upd) (auto simp: named_def)
    moreover have dom: "dom ?m = dom m" using Some by auto
    moreover have "init_neighbors (nb # nbs) m = init_neighbors nbs ?m"
      and "InterfaceName nb \<in> dom m" using Some by auto
    ultimately show ?thesis using Cons.IH [of ?m] by (simp only: dom) simp
  qed auto
qed simp

lemma foldl_AddRoute_origin:
  "e \<in> set (foldl AddRoute ft vs) \<Longrightarrow> table_ok ft \<Longrightarrow> e \<in> set ft \<or> e \<in> set vs"
  using ft.foldl_origin [of ft vs "DestinationPrefix e" e]
    route_for_mem [OF ft.inv_foldl [of ft vs], of e]
  by (auto dest: route_for_key)

text \<open>The table \<open>InitNode\<close> builds: the local routes, then the static ones.\<close>

definition init_table :: "IPStack \<Rightarrow> order \<Rightarrow> (Prefix \<times> Addr) list \<Rightarrow> InterfaceConfig list \<Rightarrow> ForwardingTable" where
  "init_table s ord routes cfgs =
     foldl AddRoute (foldl AddRoute [] (map local_route cfgs)) (map (static_route s ord) routes)"

lemma table_ok_Nil: "table_ok []"
  by (simp add: table_ok_def)

lemmas local_table_ok = ft.inv_foldl [OF table_ok_Nil]

lemma init_table_ok: "table_ok (init_table s ord routes cfgs)"
  unfolding init_table_def by (intro ft.inv_foldl table_ok_Nil)

lemma init_table_origin:
  "e \<in> set (init_table s ord routes cfgs) \<Longrightarrow>
   e \<in> local_route ` set cfgs \<or> e \<in> static_route s ord ` set routes"
  unfolding init_table_def
  using foldl_AddRoute_origin [OF _ local_table_ok] foldl_AddRoute_origin [OF _ table_ok_Nil]
  by fastforce

lemma init_table_local:
  assumes "c \<in> set cfgs"
  shows "\<exists>e. route_for (init_table s ord routes cfgs) (AssignedPrefix c) = Some e \<and> Source e = SourceLocal"
proof -
  let ?t0 = "foldl AddRoute [] (map local_route cfgs)"
  have "local_route c \<in> set (map local_route cfgs)" using assms by simp
  from ft.foldl_cost_le_offer [OF table_ok_Nil this] obtain e where
    e: "route_for ?t0 (AssignedPrefix c) = Some e" by (auto simp: local_route_def)
  then have "e \<in> local_route ` set cfgs"
    using foldl_AddRoute_origin [OF _ table_ok_Nil, of e "map local_route cfgs"]
    by (auto dest: route_for_key)
  then have "Source e = SourceLocal" "Metric e = 0" by (auto simp: local_route_def)
  moreover from this have "route_for (init_table s ord routes cfgs) (AssignedPrefix c) = Some e"
    unfolding init_table_def
    by (intro ft.foldl_keeps [OF local_table_ok e]) (auto simp: static_route_def)
  ultimately show ?thesis by blast
qed

lemma init_table_iface:
  assumes "order_of s ord" "cfg_Name ` set cfgs \<subseteq> dom (Interfaces s)"
    and "e \<in> set (init_table s ord routes cfgs)"
  shows "routes_ok s e"
  using init_table_origin [OF assms(3)]
proof
  assume "e \<in> local_route ` set cfgs"
  then show ?thesis using assms(2) by (auto simp: routes_ok_def local_route_def)
next
  assume "e \<in> static_route s ord ` set routes"
  then obtain r where "e = static_route s ord r" by auto
  then show ?thesis using getInterfaceForIP_ok [OF assms(1), of "snd r"]
    by (simp add: routes_ok_def static_route_def)
qed

text \<open>A node as built from a configuration.\<close>

definition initial_node :: "IPConfig \<Rightarrow> order \<Rightarrow> (Prefix \<times> Addr) list \<Rightarrow> IPStack \<Rightarrow> bool" where
  "initial_node cfg ord routes s \<longleftrightarrow> stack_ok s \<and> order_of s ord \<and> stackConfig s = cfg \<and> Handlers s = Map.empty \<and>
     (\<forall>e \<in> set (ForwardingTable s).
        (Source e = SourceLocal \<and> Metric e = 0 \<and> DestinationPrefix e \<in> AssignedPrefix ` set (cfg_Interfaces cfg)) \<or>
        (Source e = SourceStatic \<and> Metric e = 1 \<and> DestinationPrefix e \<in> fst ` set routes)) \<and>
     (\<forall>c \<in> set (cfg_Interfaces cfg). \<exists>e. route_for (ForwardingTable s) (AssignedPrefix c) = Some e \<and> Source e = SourceLocal)"

lemma InitNode_outcome:
  assumes ord: "set ord = cfg_Name ` set (cfg_Interfaces cfg)" "distinct ord"
  shows "(if \<exists>c \<in> set (cfg_Interfaces cfg). \<not> listens (cfg_UDPAddr c)
          then \<exists>e. InitNode listens ord routes cfg = Ret (Inl e)
          else if \<exists>nb \<in> set (cfg_Neighbors cfg). InterfaceName nb \<notin> set ord
          then InitNode listens ord routes cfg = Panic
          else \<exists>s. InitNode listens ord routes cfg = Ret (Inr s) \<and> initial_node cfg ord routes s)"
proof (cases "init_interfaces listens (cfg_Interfaces cfg) Map.empty")
  case (Inl err)
  then have "\<exists>c \<in> set (cfg_Interfaces cfg). \<not> listens (cfg_UDPAddr c)"
    using init_interfaces_Inl [of listens "cfg_Interfaces cfg" Map.empty] by simp
  with Inl show ?thesis by (simp add: InitNode_def)
next
  case (Inr m)
  then have listens: "\<not> (\<exists>c \<in> set (cfg_Interfaces cfg). \<not> listens (cfg_UDPAddr c))"
    using init_interfaces_Inl [of listens "cfg_Interfaces cfg" Map.empty] by simp
  have m: "named m" "dom m = set ord"
    using init_interfaces_Inr [OF Inr] ord by (auto simp: named_def)
  show ?thesis
  proof (cases "InterfaceName ` set (cfg_Neighbors cfg) \<subseteq> set ord")
    case False
    then have "init_neighbors (cfg_Neighbors cfg) m = Panic"
      using init_neighbors_cases [OF m(1), of "cfg_Neighbors cfg"] m(2) by simp
    with Inr False listens show ?thesis by (auto simp: InitNode_def)
  next
    case True
    then obtain m' where m': "init_neighbors (cfg_Neighbors cfg) m = Ret m'" "named m'" "dom m' = set ord"
      using init_neighbors_cases [OF m(1), of "cfg_Neighbors cfg"] m(2) by auto
    define s0 where "s0 = \<lparr>Interfaces = m', ForwardingTable = foldl AddRoute [] (map local_route
      (cfg_Interfaces cfg)), stackConfig = cfg, Handlers = Map.empty\<rparr>"
    define s1 where "s1 = s0\<lparr>ForwardingTable := init_table s0 ord routes (cfg_Interfaces cfg)\<rparr>"
    have run: "InitNode listens ord routes cfg = Ret (Inr s1)"
      using Inr m'(1) by (simp add: InitNode_def Let_def s0_def s1_def init_table_def)
    have order: "order_of s0 ord" "order_of s1 ord" using ord m' by (simp_all add: order_of_def s0_def s1_def)
    have "\<forall>e \<in> set (ForwardingTable s1). routes_ok s1 e"
      using init_table_iface [OF order(1), of "cfg_Interfaces cfg" _ routes] m'(3) ord
      by (simp add: s1_def s0_def routes_ok_def)
    then have "stack_ok s1"
      using init_table_ok m'(2) by (simp add: stack_ok_def s1_def s0_def named_def)
    moreover have "\<forall>e \<in> set (ForwardingTable s1).
        (Source e = SourceLocal \<and> Metric e = 0 \<and> DestinationPrefix e \<in> AssignedPrefix ` set (cfg_Interfaces cfg)) \<or>
        (Source e = SourceStatic \<and> Metric e = 1 \<and> DestinationPrefix e \<in> fst ` set routes)"
    proof
      fix e assume "e \<in> set (ForwardingTable s1)"
      then have "e \<in> local_route ` set (cfg_Interfaces cfg) \<or> e \<in> static_route s0 ord ` set routes"
        by (intro init_table_origin) (simp add: s1_def)
      then show "(Source e = SourceLocal \<and> Metric e = 0 \<and> DestinationPrefix e \<in> AssignedPrefix ` set (cfg_Interfaces cfg)) \<or>
          (Source e = SourceStatic \<and> Metric e = 1 \<and> DestinationPrefix e \<in> fst ` set routes)"
        by (auto simp: local_route_def static_route_def image_iff Bex_def)
    qed
    moreover have "\<forall>c \<in> set (cfg_Interfaces cfg).
        \<exists>e. route_for (ForwardingTable s1) (AssignedPrefix c) = Some e \<and> Source e = SourceLocal"
      using init_table_local by (simp add: s1_def)
    moreover have "stackConfig s1 = cfg" "Handlers s1 = Map.empty" by (simp_all add: s1_def s0_def)
    ultimately have "initial_node cfg ord routes s1" using order(2) by (simp add: initial_node_def)
    then show ?thesis using run listens True by (auto simp: image_subset_iff)
  qed
qed


definition ex_config :: IPConfig where
  "ex_config = default_IPConfig\<lparr>cfg_Interfaces :=
     [\<lparr>cfg_Name = ''if0'', AssignedIP = IPv4 0x0a000001,
       AssignedPrefix = PrefixFrom (IPv4 0x0a000000) 24, cfg_UDPAddr = (IPv4 0x7f000001, 5000)\<rparr>],
     cfg_Neighbors := [\<lparr>DestAddr = IPv4 0x0a000002, nb_UDPAddr = (IPv4 0x7f000001, 5001),
       InterfaceName = ''if0''\<rparr>]\<rparr>"


section \<open>Receiving\<close>

text \<open>A packet is for this node when an interface that is up has its destination address.\<close>

definition mine :: "IPStack \<Rightarrow> IPPacket \<Rightarrow> bool" where
  "mine s p \<longleftrightarrow> (\<exists>n i. Interfaces s n = Some i \<and> \<not> Down i \<and> IPAddr i = DestinationIP p)"

lemma forward_on_not_Handle [simp]: "forward_on lib i p nh \<noteq> Ret (Handle h q)"
  by (auto simp: forward_on_def Let_def mapG_eq_Ret split: sum.splits)

lemmas Handle_not_forward_on [simp] = forward_on_not_Handle [symmetric]


definition ex_iface :: Interface where
  "ex_iface = \<lparr>Name = ''if0'', IPAddr = IPv4 0x0a000001, Netmask = PrefixFrom (IPv4 0x0a000000) 24,
     Neighbors = [IPv4 0x0a000002 \<mapsto> (IPv4 0x7f000001, 5001)], Down = False\<rparr>"

definition ex_stack :: IPStack where
  "ex_stack = \<lparr>Interfaces = [''if0'' \<mapsto> ex_iface], ForwardingTable =
     [\<lparr>DestinationPrefix = PrefixFrom (IPv4 0x0a000000) 24, NextHop = IPv4 0x0a000001,
       Interface = ''if0'', Metric = 0, Source = SourceLocal, LastUpdated = 0\<rparr>,
      \<lparr>DestinationPrefix = PrefixFrom (IPv4 0) 0, NextHop = IPv4 0x0a000002,
       Interface = ''if0'', Metric = 1, Source = SourceStatic, LastUpdated = 0\<rparr>],
     stackConfig = ex_config, Handlers = [6 \<mapsto> TCPHandler]\<rparr>"

lemma ex_order: "order_of ex_stack [''if0'']"
  by (simp add: order_of_def ex_stack_def)

lemma ex_stack_ok: "stack_ok ex_stack"
  by (simp add: stack_ok_def ex_stack_def table_ok_def routes_ok_def ex_iface_def PrefixFrom_def)

text \<open>A header library whose \<open>Marshal\<close> cannot fail, whatever the addresses.\<close>

definition ex_total_lib :: ip_lib where
  "ex_total_lib = ex_lib\<lparr>hdr_Marshal :=
     (\<lambda>h. case ex_Marshal h of Inl _ \<Rightarrow> Inr [] | Inr bs \<Rightarrow> Inr bs)\<rparr>"

lemma ex_total_lib_marshals: "marshals ex_total_lib"
  by (simp add: marshals_def Marshal_def ex_total_lib_def split: sum.splits)

definition ex_packet :: "ip_lib \<Rightarrow> u32 \<Rightarrow> u8 \<Rightarrow> IPPacket" where
  "ex_packet lib dst ttl = CreatePacket lib (IPv4 0x0a000009) (IPv4 dst) ttl TCP_PROTOCOL [1, 2, 3]"


section \<open>Forwarding\<close>

text \<open>
  One hop: a node forwards a packet as a datagram, and the node that reads the datagram decodes
  it from its 1040-byte receive buffer, as \<open>InterfaceListen\<close> does.
\<close>

definition decode_datagram :: "ip_lib \<Rightarrow> byte list \<Rightarrow> (string + IPPacket) go" where
  "decode_datagram lib datagram =
     UnmarshalPacket lib (take 1040 datagram) (replicate (1040 - length (take 1040 datagram)) 0)"

inductive hop :: "ip_lib \<Rightarrow> IPPacket \<Rightarrow> IPPacket \<Rightarrow> bool" for lib where
  "\<lbrakk>order_of s ord1; order_of s ord2; ReceivePacket lib ord1 ord2 p s = Ret (Sent udp datagram);
    decode_datagram lib datagram = Ret (Inr p')\<rbrakk> \<Longrightarrow> hop lib p p'"

inductive_cases hopE: "hop lib p p'"

definition small_v4 :: "IPPacket \<Rightarrow> bool" where
  "small_v4 p \<longleftrightarrow> (\<exists>a b. SourceIP p = IPv4 a \<and> DestinationIP p = IPv4 b) \<and> length (Payload p) \<le> 1020"

lemma small_v4_packet: "small_v4 p \<Longrightarrow> v4_packet p"
  by (auto simp: small_v4_def v4_packet_def)

text \<open>The packet the next node sees.\<close>

definition after_hop :: "ip_lib \<Rightarrow> IPPacket \<Rightarrow> IPPacket" where
  "after_hop lib p = (let q = p\<lparr>TTL := TTL p - 1\<rparr> in
     q\<lparr>Checksum := CalculateChecksum lib q, PayloadSpare := replicate (1020 - length (Payload p)) 0\<rparr>)"

lemma forward_on_length:
  assumes "ip_lib_ok lib" "v4_packet p" "forward_on lib i p nh = Ret (Sent udp bs)"
  shows "length bs = 20 + length (Payload p)"
proof -
  let ?q = "p\<lparr>TTL := TTL p - 1\<rparr>"
  let ?r = "?q\<lparr>Checksum := CalculateChecksum lib ?q\<rparr>"
  have "v4_packet ?r" using assms(2) by (simp add: v4_packet_def)
  moreover have "Marshal lib ?r = Ret bs" using forward_on_Sent [OF assms(3)] by (simp add: Let_def)
  moreover have "0 \<le> Checksum ?r" "Checksum ?r < 65536" by (simp_all add: CalculateChecksum_range)
  ultimately show ?thesis using Unmarshal_Marshal [OF assms(1), of ?r] by auto
qed

lemma hop_packet:
  assumes "ip_lib_ok lib" "small_v4 p" "hop lib p p'"
  shows "TTL p \<noteq> 0 \<and> p' = after_hop lib p"
  using assms(3)
proof cases
  case (1 s ord1 ord2 udp datagram)
  from ReceivePacket_Sent [OF 1(3)] obtain i nh where
    valid: "ValidatePacket lib p" and f: "forward_on lib i p nh = Ret (Sent udp datagram)" by blast
  have v4: "v4_packet p" using assms(2) by (rule small_v4_packet)
  have len: "length datagram = 20 + length (Payload p)" by (rule forward_on_length [OF assms(1) v4 f])
  moreover have "length (Payload p) \<le> 1020" using assms(2) by (simp add: small_v4_def)
  ultimately have "decode_datagram lib datagram =
      UnmarshalPacket lib datagram (replicate (1020 - length (Payload p)) 0)"
    by (simp add: decode_datagram_def)
  with 1(4) forward_on_decodes [OF assms(1) v4 f] valid show ?thesis
    by (auto simp: ValidatePacket_def after_hop_def Let_def)
qed

lemma after_hop_simps [simp]:
  "TTL (after_hop lib p) = TTL p - 1" "Payload (after_hop lib p) = Payload p"
  "SourceIP (after_hop lib p) = SourceIP p" "DestinationIP (after_hop lib p) = DestinationIP p"
  "PProtocol (after_hop lib p) = PProtocol p" "small_v4 (after_hop lib p) = small_v4 p"
  by (simp_all add: after_hop_def Let_def small_v4_def)

text \<open>
  C6. Hop limit. Along any path through any nodes, with any forwarding tables (loops
  included), a packet is transmitted at most as many times as its TTL says, and what the last
  node on the path sees is the original packet with the TTL reduced by the length of the path.
\<close>

theorem hop_limit:
  assumes "ip_lib_ok lib" "small_v4 p" "(hop lib ^^ n) p q"
  shows "n \<le> unat (TTL p) \<and> unat (TTL q) = unat (TTL p) - n \<and> Payload q = Payload p \<and>
    SourceIP q = SourceIP p \<and> DestinationIP q = DestinationIP p \<and> PProtocol q = PProtocol p"
proof -
  have "n \<le> unat (TTL p) \<and> unat (TTL q) = unat (TTL p) - n \<and> Payload q = Payload p \<and>
      SourceIP q = SourceIP p \<and> DestinationIP q = DestinationIP p \<and> PProtocol q = PProtocol p \<and> small_v4 q"
    using assms(3)
  proof (induction n arbitrary: q)
    case (Suc n)
    then obtain r where r: "(hop lib ^^ n) p r" "hop lib r q" by auto
    from Suc.IH [OF r(1)] have IH: "n \<le> unat (TTL p)" "unat (TTL r) = unat (TTL p) - n" "small_v4 r"
      and "Payload r = Payload p" "SourceIP r = SourceIP p" "DestinationIP r = DestinationIP p"
      "PProtocol r = PProtocol p" by auto
    moreover from hop_packet [OF assms(1) IH(3) r(2)] have h: "TTL r \<noteq> 0" "q = after_hop lib r" by auto
    moreover from h(1) have "unat (TTL r - 1) = unat (TTL r) - 1" by (simp add: unat_minus_one)
    moreover from h(1) have "0 < unat (TTL r)" by (simp add: unat_gt_0)
    ultimately show ?case by auto
  qed (use assms(2) in auto)
  then show ?thesis by blast
qed

lemma ex_stack_forwards:
  "ReceivePacket ex_lib [''if0''] [''if0''] (ex_packet ex_lib 0x08080808 2) ex_stack =
     forward_on ex_lib ex_iface (ex_packet ex_lib 0x08080808 2) (IPv4 0x0a000002)"
proof -
  have "ValidatePacket ex_lib (ex_packet ex_lib 0x08080808 2)" by (simp add: ex_packet_def)
  moreover have "drop_bit 8 (0x08080808 :: u32) \<noteq> drop_bit 8 0x0a000000" by code_simp
  ultimately show ?thesis
    by (simp add: ReceivePacket_def find_iface_def ex_stack_def ex_iface_def ex_packet_def
        CreatePacket_def Let_def Contains_IPv4 NextHop_ft_def NextHop_step_def Bits_PrefixFrom_IPv4)
qed

lemma ex_packet_simps [simp]:
  "TTL (ex_packet lib d t) = t" "Payload (ex_packet lib d t) = [1, 2, 3]"
  "SourceIP (ex_packet lib d t) = IPv4 0x0a000009" "DestinationIP (ex_packet lib d t) = IPv4 d"
  "PProtocol (ex_packet lib d t) = TCP_PROTOCOL"
  by (simp_all add: ex_packet_def CreatePacket_def Let_def)

lemma ex_packet_small: "small_v4 (ex_packet lib d t)"
  by (simp add: small_v4_def)

lemma ex_forward_Sent:
  "\<exists>bs. forward_on ex_lib ex_iface (ex_packet ex_lib d t) (IPv4 0x0a000002) =
     Ret (Sent (IPv4 0x7f000001, 5001) bs)"
proof -
  let ?q = "(ex_packet ex_lib d t)\<lparr>TTL := t - 1\<rparr>"
  let ?r = "?q\<lparr>Checksum := CalculateChecksum ex_lib ?q\<rparr>"
  have "v4_packet ?r" by (simp add: v4_packet_def)
  then obtain bs where "Marshal ex_lib ?r = Ret bs"
    using Unmarshal_Marshal [OF ex_lib_ok, of ?r] by (auto simp: CalculateChecksum_range)
  then show ?thesis
    by (simp add: forward_on_def SendPacket_def ex_iface_def Let_def)
qed

lemma ex_hop: "\<exists>q. hop ex_lib (ex_packet ex_lib 0x08080808 2) q"
proof -
  let ?p = "ex_packet ex_lib 0x08080808 2"
  from ex_forward_Sent obtain bs where
    f: "forward_on ex_lib ex_iface ?p (IPv4 0x0a000002) = Ret (Sent (IPv4 0x7f000001, 5001) bs)" by blast
  then have "ReceivePacket ex_lib [''if0''] [''if0''] ?p ex_stack = Ret (Sent (IPv4 0x7f000001, 5001) bs)"
    by (simp add: ex_stack_forwards)
  moreover have "length bs = 23"
    using forward_on_length [OF ex_lib_ok small_v4_packet [OF ex_packet_small] f] by simp
  then have "decode_datagram ex_lib bs = UnmarshalPacket ex_lib bs (replicate 1017 0)"
    by (simp add: decode_datagram_def)
  ultimately have "hop ex_lib ?p (after_hop ex_lib ?p)"
    using forward_on_decodes [OF ex_lib_ok small_v4_packet [OF ex_packet_small] f]
    by (intro hop.intros [OF ex_order ex_order])
       (simp_all add: after_hop_def Let_def)
  then show ?thesis by blast
qed

theorem hop_limit_witness:
  "\<exists>q. (hop ex_lib ^^ 1) (ex_packet ex_lib 0x08080808 2) q \<and> unat (TTL q) = 1 \<and> Payload q = [1, 2, 3]"
proof -
  obtain q where "(hop ex_lib ^^ 1) (ex_packet ex_lib 0x08080808 2) q" using ex_hop by auto
  with hop_limit [OF ex_lib_ok ex_packet_small this] show ?thesis by auto
qed

text \<open>
  C7. Forwarding. Whatever a node sends on for a packet it did not originate leaves an interface
  that is up, to a configured neighbour of that interface, and decodes to the packet with its
  TTL decremented and a fresh checksum; the next node accepts it exactly when the TTL was
  greater than 1.
\<close>

theorem forwarded_packet:
  assumes "ip_lib_ok lib" "v4_packet p" "ReceivePacket lib ord1 ord2 p s = Ret (Sent udp datagram)"
  shows "\<exists>n i nh q. Interfaces s n = Some i \<and> \<not> Down i \<and> Neighbors i nh = Some udp \<and>
    length datagram = 20 + length (Payload p) \<and>
    UnmarshalPacket lib datagram [] = Ret (Inr q) \<and>
    TTL q = TTL p - 1 \<and> Payload q = Payload p \<and> SourceIP q = SourceIP p \<and>
    DestinationIP q = DestinationIP p \<and> PProtocol q = PProtocol p \<and>
    (ValidatePacket lib q \<longleftrightarrow> 1 < TTL p)"
proof -
  from ReceivePacket_Sent [OF assms(3)] obtain n i nh where
    sent: "ValidatePacket lib p" "Interfaces s n = Some i" "\<not> Down i" "Neighbors i nh = Some udp"
    and f: "forward_on lib i p nh = Ret (Sent udp datagram)" by blast
  let ?r = "p\<lparr>TTL := TTL p - 1\<rparr>"
  let ?q = "?r\<lparr>Checksum := CalculateChecksum lib ?r, PayloadSpare := []\<rparr>"
  have u: "UnmarshalPacket lib datagram [] = Ret (Inr ?q)"
    using forward_on_decodes [OF assms(1,2) f, of "[]"] by (simp add: Let_def)
  have "CalculateChecksum lib ?q = CalculateChecksum lib ?r"
    by (rule CalculateChecksum_cong) simp_all
  moreover have "TTL p \<noteq> 0" using sent(1) by (auto simp: ValidatePacket_def)
  moreover from this have "TTL p - 1 \<noteq> 0 \<longleftrightarrow> 1 < TTL p"
    by (metis (no_types, lifting) diff_self right_minus_eq word_less_1 word_neq_0_conv word_not_simps(1) not_less_iff_gr_or_eq)
  ultimately have "ValidatePacket lib ?q \<longleftrightarrow> 1 < TTL p"
    by (simp add: ValidatePacket_def)
  then show ?thesis
    using sent u forward_on_length [OF assms(1,2) f] by fastforce
qed

theorem forwarded_packet_witness:
  "\<exists>bs q. ReceivePacket ex_lib [''if0''] [''if0''] (ex_packet ex_lib 0x08080808 2) ex_stack =
       Ret (Sent (IPv4 0x7f000001, 5001) bs) \<and>
     UnmarshalPacket ex_lib bs [] = Ret (Inr q) \<and> TTL q = 1 \<and> ValidatePacket ex_lib q"
proof -
  let ?p = "ex_packet ex_lib 0x08080808 2"
  from ex_forward_Sent [of "0x08080808" 2] obtain bs where
    r: "ReceivePacket ex_lib [''if0''] [''if0''] ?p ex_stack = Ret (Sent (IPv4 0x7f000001, 5001) bs)"
    by (auto simp: ex_stack_forwards)
  from forwarded_packet [OF ex_lib_ok small_v4_packet [OF ex_packet_small] r] show ?thesis
    using r by auto
qed

text \<open>
  C8. Malformed datagrams. A read error, or a datagram the header library cannot parse, makes
  \<open>InterfaceListen\<close> carry on with an empty packet; its TTL is 0, so nothing happens.
\<close>

theorem malformed_datagram_ignored:
  assumes "ParseHeader lib [] = Inl e0"
    and "case read of Inl err \<Rightarrow> True | Inr d \<Rightarrow> \<exists>e. ParseHeader lib (take 1040 d) = Inl e"
  shows "listen_round lib ord1 ord2 i s read = Ret (if Down i then None else Some Invalid)"
  using assms
  by (auto simp: listen_round_def UnmarshalPacket_def ReceivePacket_def Let_def split: sum.splits)

theorem malformed_datagram_ignored_witness:
  "listen_round ex_lib [''if0''] [''if0''] ex_iface ex_stack (Inr [0x45, 0, 0]) = Ret (Some Invalid)"
proof -
  have "ParseHeader ex_lib [] = Inl ''header too short''" by (simp add: ex_lib_def)
  from malformed_datagram_ignored [OF this, of "Inr [0x45, 0, 0]" "[''if0'']" "[''if0'']" ex_iface ex_stack]
  show ?thesis by (simp add: ex_lib_def ex_iface_def)
qed

end
