(* ===== verification/RIP_Routing.thy ===== *)
theory RIP_Routing
  imports IP_Stack RIP_Packet Go_Slice
begin

text \<open>
  RIP (\<open>pkg/ipstack/routing.go\<close>): requests and responses, the processing of a response,
  triggered updates with split horizon and poison reverse, the periodic update and the timeout
  check. A handler takes the stack and the current time and returns the stack and the effects of
  the packets it sent, in order. A packet a node sends to one of its own addresses appears as a
  \<open>Handle\<close> effect and is not processed within the same step.
\<close>

fun forG :: "('a \<Rightarrow> 'b list go) \<Rightarrow> 'a list \<Rightarrow> 'b list go" where
  "forG f [] = Ret []"
| "forG f (x # xs) = bindG (f x) (\<lambda>ys. mapG ((@) ys) (forG f xs))"

section \<open>Sending\<close>

text \<open>A failed marshal or send is only logged.\<close>

definition SendRIPResponse ::
  "ip_lib \<Rightarrow> order \<Rightarrow> order \<Rightarrow> IPStack \<Rightarrow> Addr \<Rightarrow> RIPMessageEntry list \<Rightarrow> ip_effect list go" where
  "SendRIPResponse lib o1 o2 s dst es =
     (let response = \<lparr>command = RIP_RESPONSE, num_entries = word_of_nat (length es), entries = es\<rparr>
      in case MarshalRIPMessage response of
           Inl err \<Rightarrow> Ret []
         | Inr marshalled_message \<Rightarrow>
             mapG (\<lambda>r. case r of Inl err \<Rightarrow> [] | Inr eff \<Rightarrow> [eff])
               (SendIP lib o1 o2 s dst RIP_PROTOCOL (1 + 1) marshalled_message))"

definition SendRIPRequest :: "ip_lib \<Rightarrow> order \<Rightarrow> order \<Rightarrow> IPStack \<Rightarrow> ip_effect list go" where
  "SendRIPRequest lib o1 o2 s =
     (let message = \<lparr>command = RIP_REQUEST, num_entries = 0, entries = []\<rparr>
      in case MarshalRIPMessage message of
           Inl err \<Rightarrow> Ret []
         | Inr marshalled_message \<Rightarrow>
             forG (\<lambda>neighbor.
               mapG (\<lambda>r. case r of Inl err \<Rightarrow> [] | Inr eff \<Rightarrow> [eff])
                 (SendIP lib o1 o2 s neighbor RIP_PROTOCOL (1 + 1) marshalled_message))
               (RipNeighbors (stackConfig s)))"

text \<open>The entry's prefix, as every function of this file computes it.\<close>

definition entry_prefix :: "RIPMessageEntry \<Rightarrow> Prefix" where
  "entry_prefix e = PrefixFrom (uint32ToNetipAddr (entry_address e)) (uint (entry_mask e))"

definition applyPoisonReverse :: "IPStack \<Rightarrow> RIPMessageEntry list \<Rightarrow> Addr \<Rightarrow> RIPMessageEntry list" where
  "applyPoisonReverse s es neighbor =
     concat (map (\<lambda>entry.
       let destPrefix = entry_prefix entry;
           (route, exists) = Lookup (ForwardingTable s) destPrefix
       in if exists \<and> NextHop route = neighbor
          then [\<lparr>entry_cost = 16, entry_address = entry_address entry, entry_mask = entry_mask entry\<rparr>]
          else if NextHop route \<noteq> neighbor then [entry] else []) es)"

definition SendTriggeredUpdate ::
  "ip_lib \<Rightarrow> order \<Rightarrow> order \<Rightarrow> IPStack \<Rightarrow> RIPMessageEntry list \<Rightarrow> ip_effect list go" where
  "SendTriggeredUpdate lib o1 o2 s changedEntries =
     forG (\<lambda>neighbor. SendRIPResponse lib o1 o2 s neighbor (applyPoisonReverse s changedEntries neighbor))
       (RipNeighbors (stackConfig s))"

definition rip_entry_of :: "ForwardingTableEntry \<Rightarrow> RIPMessageEntry go" where
  "rip_entry_of entry =
     bindG (As4 (prefix_ip (DestinationPrefix entry))) (\<lambda>(a0, a1, a2, a3).
       let ipUint32 = push_bit 24 (ucast a0) OR push_bit 16 (ucast a1) OR push_bit 8 (ucast a2) OR ucast a3
       in Ret \<lparr>entry_cost = word_of_int (Metric entry), entry_address = ipUint32,
               entry_mask = word_of_int (Bits (DestinationPrefix entry))\<rparr>)"

definition GetAllRIPEntries :: "IPStack \<Rightarrow> RIPMessageEntry list go" where
  "GetAllRIPEntries s = forG (\<lambda>entry. mapG (\<lambda>e. [e]) (rip_entry_of entry)) (ForwardingTable s)"

section \<open>Processing a response\<close>

text \<open>
  One entry. \<open>Lookup\<close> returns a pointer to a copy of the route, so the assignments to
  \<open>oldEntry.LastUpdated\<close> and \<open>oldEntry.Metric\<close> in both refresh branches end in a local
  value, here bound and not used.
\<close>

definition process_entry ::
  "order \<Rightarrow> IPStack \<Rightarrow> Addr \<Rightarrow> Time \<Rightarrow> RIPMessageEntry \<Rightarrow>
   ForwardingTable \<times> RIPMessageEntry list \<Rightarrow> ForwardingTable \<times> RIPMessageEntry list" where
  "process_entry ord s sourceIP now entry acc =
     (case acc of (ft, changedEntries) \<Rightarrow>
        let destPrefix = entry_prefix entry;
            cost = uint (entry_cost entry) + 1
        in if 16 \<le> cost then
             (let (oldEntry, _) = Lookup ft destPrefix;
                  oldEntry = (if NextHop oldEntry = sourceIP
                    then oldEntry\<lparr>LastUpdated := now, Metric := cost\<rparr> else oldEntry)
              in (ft, changedEntries))
           else
             (let (oldEntry, exists) = Lookup ft destPrefix
              in if \<not> exists \<or> cost < Metric oldEntry then
                   (AddRoute ft \<lparr>DestinationPrefix = destPrefix, NextHop = sourceIP,
                      Interface = getInterfaceForIP s ord sourceIP, Metric = cost,
                      Source = SourceRIP, LastUpdated = now\<rparr>,
                    changedEntries @ [\<lparr>entry_cost = word_of_int cost,
                      entry_address = entry_address entry, entry_mask = entry_mask entry\<rparr>])
                 else
                   (let oldEntry = (if NextHop oldEntry = sourceIP
                      then oldEntry\<lparr>LastUpdated := now, Metric := cost\<rparr> else oldEntry)
                    in (ft, changedEntries))))"

definition ProcessRIPResponse ::
  "ip_lib \<Rightarrow> order \<Rightarrow> order \<Rightarrow> Time \<Rightarrow> IPStack \<Rightarrow> Addr \<Rightarrow> RIPMessage \<Rightarrow> (IPStack \<times> ip_effect list) go" where
  "ProcessRIPResponse lib o1 o2 now s sourceIP ripMessage =
     (case fold (process_entry o1 s sourceIP now) (entries ripMessage) (ForwardingTable s, []) of
        (ft, changedEntries) \<Rightarrow>
          let s = s\<lparr>ForwardingTable := ft\<rparr>
          in if changedEntries \<noteq> []
             then mapG (Pair s) (SendTriggeredUpdate lib o1 o2 s changedEntries)
             else Ret (s, []))"

definition run_RIPHandler ::
  "ip_lib \<Rightarrow> order \<Rightarrow> order \<Rightarrow> Time \<Rightarrow> IPPacket \<Rightarrow> IPStack \<Rightarrow> (IPStack \<times> ip_effect list) go" where
  "run_RIPHandler lib o1 o2 now packet stack =
     (case UnmarshalRIPMessage (Payload packet) of
        Inl err \<Rightarrow> Ret (stack, [])
      | Inr ripMessage \<Rightarrow>
          if command ripMessage = RIP_REQUEST then
            bindG (GetAllRIPEntries stack) (\<lambda>es.
              mapG (Pair stack) (SendRIPResponse lib o1 o2 stack (SourceIP packet) es))
          else if command ripMessage = RIP_RESPONSE then
            ProcessRIPResponse lib o1 o2 now stack (SourceIP packet) ripMessage
          else Ret (stack, []))"

section \<open>The periodic tasks\<close>

text \<open>One tick of \<open>PeriodicUpdate\<close>.\<close>

definition PeriodicUpdate_tick :: "ip_lib \<Rightarrow> order \<Rightarrow> order \<Rightarrow> IPStack \<Rightarrow> ip_effect list go" where
  "PeriodicUpdate_tick lib o1 o2 s =
     forG (\<lambda>neighbor. bindG (GetAllRIPEntries s) (\<lambda>es.
         SendRIPResponse lib o1 o2 s neighbor (applyPoisonReverse s es neighbor)))
       (RipNeighbors (stackConfig s))"

text \<open>
  One tick of \<open>RIPTimeoutCheck\<close>: the range visits the slots the table had at the start, reading
  each from the array that the removals shift.
\<close>

definition expired :: "Time \<Rightarrow> Duration \<Rightarrow> ForwardingTableEntry \<Rightarrow> bool" where
  "expired now timeout entry \<longleftrightarrow> Source entry = SourceRIP \<and> timeout < time_Sub now (LastUpdated entry)"

definition RemoveRoute_slice ::
  "Prefix \<Rightarrow> ForwardingTableEntry slice \<Rightarrow> ForwardingTableEntry slice" where
  "RemoveRoute_slice prefix sl =
     (case find_index (\<lambda>e. DestinationPrefix e = prefix) (live sl) of
        None \<Rightarrow> sl | Some i \<Rightarrow> slice_delete i sl)"

definition timeout_visit ::
  "Time \<Rightarrow> Duration \<Rightarrow> nat \<Rightarrow> ForwardingTableEntry slice \<Rightarrow> ForwardingTableEntry slice" where
  "timeout_visit now timeout i sl =
     (let entry = arr sl ! i
      in if expired now timeout entry then RemoveRoute_slice (DestinationPrefix entry) sl else sl)"

definition RIPTimeoutCheck_tick :: "Time \<Rightarrow> Duration \<Rightarrow> IPStack \<Rightarrow> IPStack" where
  "RIPTimeoutCheck_tick now timeout s =
     s\<lparr>ForwardingTable := live (fold (timeout_visit now timeout)
         [0..<length (ForwardingTable s)] (slice_of (ForwardingTable s)))\<rparr>"

end
