(* ===== verification/RIP_Props.thy ===== *)
theory RIP_Props
  imports RIP_Routing IP_Props
begin

text \<open>
  What the routing protocol guarantees: processing a response is a Bellman-Ford step (a sequence
  of \<open>AddRoute\<close> offers), local and static routes are never touched, learned metrics stay
  between 1 and 15, announcements follow split horizon with poison reverse, and the timeout check
  removes only expired routes and makes progress, though a single tick may leave some behind.
\<close>

section \<open>Processing is a sequence of offers\<close>

definition offer :: "order \<Rightarrow> IPStack \<Rightarrow> Addr \<Rightarrow> Time \<Rightarrow> RIPMessageEntry \<Rightarrow> ForwardingTableEntry" where
  "offer ord s src now e = \<lparr>DestinationPrefix = entry_prefix e, NextHop = src,
     Interface = getInterfaceForIP s ord src, Metric = uint (entry_cost e) + 1,
     Source = SourceRIP, LastUpdated = now\<rparr>"

definition usable :: "RIPMessageEntry \<Rightarrow> bool" where
  "usable e \<longleftrightarrow> uint (entry_cost e) + 1 < 16"

lemma offer_simps [simp]:
  "DestinationPrefix (offer ord s src now e) = entry_prefix e" "NextHop (offer ord s src now e) = src"
  "Metric (offer ord s src now e) = uint (entry_cost e) + 1" "Source (offer ord s src now e) = SourceRIP"
  "LastUpdated (offer ord s src now e) = now" "Interface (offer ord s src now e) = getInterfaceForIP s ord src"
  by (simp_all add: offer_def)

lemma AddRoute_no_better:
  "route_for ft (DestinationPrefix v) = Some w \<Longrightarrow> Metric w \<le> Metric v \<Longrightarrow> AddRoute ft v = ft"
  by (induction ft) (auto split: if_splits)

lemma process_entry_eq:
  "process_entry ord s src now e (ft, ch) =
     (if \<not> usable e then (ft, ch)
      else (AddRoute ft (offer ord s src now e),
            if AddRoute ft (offer ord s src now e) = ft then ch
            else ch @ [e\<lparr>entry_cost := entry_cost e + 1\<rparr>]))"
proof (cases "usable e")
  case True
  let ?v = "offer ord s src now e"
  have w: "word_of_int (uint (entry_cost e) + 1) = entry_cost e + 1" by simp
  show ?thesis
  proof (cases "\<exists>r. route_for ft (entry_prefix e) = Some r \<and> Metric r \<le> Metric ?v")
    case False
    then have "route_for (AddRoute ft ?v) (entry_prefix e) = Some ?v"
      and "route_for ft (entry_prefix e) \<noteq> Some ?v"
      by (force simp: route_for_AddRoute split: option.splits)+
    then have "AddRoute ft ?v \<noteq> ft" by metis
    with False True w show ?thesis
      by (cases "route_for ft (entry_prefix e)")
         (auto simp: process_entry_def usable_def Lookup_route_for Let_def offer_def split: if_splits)
  next
    case le: True
    then obtain r where r: "route_for ft (entry_prefix e) = Some r" "Metric r \<le> Metric ?v" by blast
    with AddRoute_no_better [of ft ?v r] have "AddRoute ft ?v = ft" by simp
    with r True show ?thesis
      by (auto simp: process_entry_def usable_def Lookup_route_for Let_def)
  qed
qed (simp add: process_entry_def usable_def Let_def split_beta)

lemma fold_process_entry:
  "fst (fold (process_entry ord s src now) es (ft, ch)) =
     foldl AddRoute ft (map (offer ord s src now) (filter usable es))"
  by (induction es arbitrary: ft ch) (simp_all add: process_entry_eq)

lemma changed_grows: "\<exists>d. snd (fold (process_entry ord s src now) es (ft, ch)) = ch @ d"
proof (induction es arbitrary: ft ch)
  case (Cons e es)
  show ?case
    using Cons.IH [of ft ch] Cons.IH [of "AddRoute ft (offer ord s src now e)" ch]
      Cons.IH [of "AddRoute ft (offer ord s src now e)" "ch @ [e\<lparr>entry_cost := entry_cost e + 1\<rparr>]"]
    by (auto simp: process_entry_eq)
qed simp

lemma fold_process_changed:
  "snd (fold (process_entry ord s src now) es (ft, ch)) = ch \<Longrightarrow>
   fst (fold (process_entry ord s src now) es (ft, ch)) = ft"
proof (induction es arbitrary: ft ch)
  case (Cons e es)
  show ?case
  proof (cases "usable e \<and> AddRoute ft (offer ord s src now e) \<noteq> ft")
    case True
    with Cons.prems changed_grows [of ord s src now es "AddRoute ft (offer ord s src now e)"
        "ch @ [e\<lparr>entry_cost := entry_cost e + 1\<rparr>]"]
    show ?thesis by (auto simp: process_entry_eq)
  next
    case False
    with Cons show ?thesis by (auto simp: process_entry_eq split: if_splits)
  qed
qed simp

definition offers :: "order \<Rightarrow> IPStack \<Rightarrow> Addr \<Rightarrow> Time \<Rightarrow> RIPMessage \<Rightarrow> ForwardingTableEntry list" where
  "offers ord s src now m = map (offer ord s src now) (filter usable (entries m))"

lemma ProcessRIPResponse_table:
  "ProcessRIPResponse lib o1 o2 now s src m = Ret (s', effs) \<Longrightarrow>
   s' = s\<lparr>ForwardingTable := foldl AddRoute (ForwardingTable s) (offers o1 s src now m)\<rparr>"
  using fold_process_entry [of o1 s src now "entries m" "ForwardingTable s" "[]"]
  by (auto simp: ProcessRIPResponse_def offers_def Let_def mapG_eq_Ret split: prod.splits if_splits)

section \<open>The routing invariant\<close>

definition rip_ok :: "ForwardingTable \<Rightarrow> bool" where
  "rip_ok ft \<longleftrightarrow> (\<forall>e \<in> set ft. if Source e = SourceRIP then 1 \<le> Metric e \<and> Metric e \<le> 15
                                   else 0 \<le> Metric e \<and> Metric e \<le> 1)"

definition node_ok :: "IPStack \<Rightarrow> bool" where
  "node_ok s \<longleftrightarrow> stack_ok s \<and> rip_ok (ForwardingTable s)"

lemma offers_range:
  "v \<in> set (offers ord s src now m) \<Longrightarrow>
   Source v = SourceRIP \<and> 1 \<le> Metric v \<and> Metric v \<le> 15 \<and> NextHop v = src \<and> LastUpdated v = now \<and>
   Interface v = getInterfaceForIP s ord src"
  by (auto simp: offers_def usable_def)

lemma node_ok_offers:
  assumes "node_ok s" "order_of s ord"
  shows "node_ok (s\<lparr>ForwardingTable := foldl AddRoute (ForwardingTable s) (offers ord s src now m)\<rparr>)"
proof -
  have ok: "table_ok (ForwardingTable s)" using assms(1) by (simp add: node_ok_def stack_ok_def)
  have new: "e \<in> set (ForwardingTable s) \<or> e \<in> set (offers ord s src now m)"
    if "e \<in> set (foldl AddRoute (ForwardingTable s) (offers ord s src now m))" for e
    using foldl_AddRoute_origin [OF that ok] .
  have "rip_ok (foldl AddRoute (ForwardingTable s) (offers ord s src now m))"
    using assms(1) new offers_range unfolding node_ok_def rip_ok_def by fastforce
  moreover have "routes_ok s e"
    if "e \<in> set (foldl AddRoute (ForwardingTable s) (offers ord s src now m))" for e
    using new [OF that] assms(1) getInterfaceForIP_ok [OF assms(2), of src] offers_range [of e ord s src now m]
    unfolding node_ok_def stack_ok_def routes_ok_def by metis
  ultimately show ?thesis
    using assms(1) ft.inv_foldl [OF ok] by (simp add: node_ok_def stack_ok_def routes_ok_def)
qed

text \<open>
  C9. A response is a Bellman-Ford step. After \<open>ProcessRIPResponse\<close> the route for every prefix
  is the old one unless the message offers the prefix, at a cost below 16 counting the hop to the
  sender, strictly more cheaply; then it is such an offer, through the sender. The metric of
  every prefix is the minimum of the old metric and the offered ones.
\<close>

theorem response_is_relaxation:
  assumes "table_ok (ForwardingTable s)"
    and "ProcessRIPResponse lib o1 o2 now s src m = Ret (s', effs)"
  shows "(\<forall>p r. route_for (ForwardingTable s') p = Some r \<longrightarrow>
            route_for (ForwardingTable s) p = Some r \<or>
            (NextHop r = src \<and> Source r = SourceRIP \<and> LastUpdated r = now \<and>
             (\<exists>e \<in> set (entries m). entry_prefix e = p \<and> Metric r = uint (entry_cost e) + 1 \<and> Metric r < 16) \<and>
             (\<forall>r0. route_for (ForwardingTable s) p = Some r0 \<longrightarrow> Metric r < Metric r0))) \<and>
         (\<forall>p r0. route_for (ForwardingTable s) p = Some r0 \<longrightarrow>
            (\<exists>r. route_for (ForwardingTable s') p = Some r \<and> Metric r \<le> Metric r0)) \<and>
         (\<forall>e \<in> set (entries m). uint (entry_cost e) + 1 < 16 \<longrightarrow>
            (\<exists>r. route_for (ForwardingTable s') (entry_prefix e) = Some r \<and>
                 Metric r \<le> uint (entry_cost e) + 1))"
proof -
  let ?t = "ForwardingTable s" and ?vs = "offers o1 s src now m"
  have t': "ForwardingTable s' = foldl AddRoute ?t ?vs"
    using ProcessRIPResponse_table [OF assms(2)] by simp
  have origin: "route_for ?t p = Some r \<or> (r \<in> set ?vs \<and> DestinationPrefix r = p)"
    if "route_for (ForwardingTable s') p = Some r" for p r
    using ft.foldl_origin [OF assms(1)] that unfolding t' by blast
  have better: "Metric r < Metric r0"
    if "route_for (ForwardingTable s') p = Some r" "route_for ?t p = Some r0" "r \<noteq> r0" for p r r0
    using ft.foldl_improves [OF assms(1) that(2)] that(1,3) unfolding t' by blast
  have taken: "route_for ?t p = Some r \<or>
      (NextHop r = src \<and> Source r = SourceRIP \<and> LastUpdated r = now \<and>
       (\<exists>e \<in> set (entries m). entry_prefix e = p \<and> Metric r = uint (entry_cost e) + 1 \<and> Metric r < 16) \<and>
       (\<forall>r0. route_for ?t p = Some r0 \<longrightarrow> Metric r < Metric r0))"
    if r: "route_for (ForwardingTable s') p = Some r" for p r
  proof (cases "route_for ?t p = Some r")
    case False
    with origin [OF r] have v: "r \<in> set ?vs" "DestinationPrefix r = p" by auto
    then have "\<exists>e \<in> set (entries m). entry_prefix e = p \<and> Metric r = uint (entry_cost e) + 1 \<and> Metric r < 16"
      by (auto simp: offers_def usable_def)
    moreover have "\<forall>r0. route_for ?t p = Some r0 \<longrightarrow> Metric r < Metric r0"
      using better [OF r] False by auto
    ultimately show ?thesis using offers_range [OF v(1)] by simp
  qed simp
  have "\<exists>r. route_for (ForwardingTable s') (entry_prefix e) = Some r \<and> Metric r \<le> uint (entry_cost e) + 1"
    if "e \<in> set (entries m)" "uint (entry_cost e) + 1 < 16" for e
    using ft.foldl_cost_le_offer [OF assms(1), of "offer o1 s src now e" ?vs] that
    unfolding t' by (simp add: offers_def usable_def)
  moreover have "\<exists>r. route_for (ForwardingTable s') p = Some r \<and> Metric r \<le> Metric r0"
    if "route_for ?t p = Some r0" for p r0
    using ft.foldl_cost_le [OF assms(1) that] unfolding t' .
  ultimately show ?thesis
    using taken by (intro conjI allI ballI impI)
qed

definition ex_response :: RIPMessage where
  "ex_response = \<lparr>command = RIP_RESPONSE, num_entries = 1,
     entries = [\<lparr>entry_cost = 1, entry_address = 0x0b000000, entry_mask = 24\<rparr>]\<rparr>"

lemma ex_response_run:
  "\<exists>s'. ProcessRIPResponse ex_lib [''if0''] [''if0''] 100 ex_stack (IPv4 0x0a000002) ex_response = Ret (s', [])"
  by (auto simp: ProcessRIPResponse_def SendTriggeredUpdate_def Let_def ex_stack_def ex_config_def
      default_IPConfig_def split: prod.splits)

theorem response_is_relaxation_witness:
  "\<exists>s' r. ProcessRIPResponse ex_lib [''if0''] [''if0''] 100 ex_stack (IPv4 0x0a000002) ex_response = Ret (s', [])
     \<and> route_for (ForwardingTable s') (PrefixFrom (IPv4 0x0b000000) 24) = Some r \<and> Metric r \<le> 2"
proof -
  have ok: "table_ok (ForwardingTable ex_stack)" using ex_stack_ok by (simp add: stack_ok_def)
  obtain s' where run: "ProcessRIPResponse ex_lib [''if0''] [''if0''] 100 ex_stack (IPv4 0x0a000002)
      ex_response = Ret (s', [])" using ex_response_run by blast
  from response_is_relaxation [OF ok run] run show ?thesis
    by (auto simp: ex_response_def entry_prefix_def)
qed

section \<open>The handler keeps the invariant\<close>

definition v4_routes :: "IPStack \<Rightarrow> bool" where
  "v4_routes s \<longleftrightarrow> (\<forall>e \<in> set (ForwardingTable s). \<exists>w. prefix_ip (DestinationPrefix e) = IPv4 w)"

lemma forG_returns: "(\<And>x. x \<in> set xs \<Longrightarrow> returns (f x)) \<Longrightarrow> returns (forG f xs)"
  by (induction xs) (auto intro!: returns_bindG)

lemma SendRIPResponse_returns:
  "stack_ok s \<Longrightarrow> marshals lib \<Longrightarrow> returns (SendRIPResponse lib o1 o2 s dst es)"
  by (simp add: SendRIPResponse_def MarshalRIPMessage_eq SendIP_returns)

lemma GetAllRIPEntries_returns: "v4_routes s \<Longrightarrow> returns (GetAllRIPEntries s)"
  by (auto simp: GetAllRIPEntries_def rip_entry_of_def v4_routes_def As4_def Let_def
      intro!: forG_returns returns_bindG)

lemma entry_prefix_IPv4 [simp]: "prefix_ip (entry_prefix e) = IPv4 (entry_address e)"
  by (simp add: entry_prefix_def PrefixFrom_def)

lemma SendTriggeredUpdate_returns:
  "stack_ok s \<Longrightarrow> marshals lib \<Longrightarrow> returns (SendTriggeredUpdate lib o1 o2 s ch)"
  unfolding SendTriggeredUpdate_def by (intro forG_returns SendRIPResponse_returns)

lemma ProcessRIPResponse_returns:
  assumes "node_ok s" "marshals lib" "order_of s o1"
  shows "\<exists>effs. ProcessRIPResponse lib o1 o2 now s src m =
    Ret (s\<lparr>ForwardingTable := foldl AddRoute (ForwardingTable s) (offers o1 s src now m)\<rparr>, effs)"
proof -
  obtain ft ch where f: "fold (process_entry o1 s src now) (entries m) (ForwardingTable s, []) = (ft, ch)"
    by fastforce
  then have ft: "ft = foldl AddRoute (ForwardingTable s) (offers o1 s src now m)"
    using fold_process_entry [of o1 s src now "entries m" "ForwardingTable s" "[]"]
    by (simp add: offers_def)
  have "stack_ok (s\<lparr>ForwardingTable := ft\<rparr>)"
    using node_ok_offers [OF assms(1,3)] by (simp add: node_ok_def ft)
  then obtain x where "SendTriggeredUpdate lib o1 o2 (s\<lparr>ForwardingTable := ft\<rparr>) ch = Ret x"
    using SendTriggeredUpdate_returns [OF _ assms(2), of _ o1 o2 ch] by (blast elim!: returnsE)
  then have "ProcessRIPResponse lib o1 o2 now s src m =
      Ret (s\<lparr>ForwardingTable := ft\<rparr>, if ch \<noteq> [] then x else [])"
    by (simp add: ProcessRIPResponse_def f Let_def)
  then show ?thesis unfolding ft by blast
qed

lemma run_RIPHandler_cases:
  assumes "node_ok s" "marshals lib" "order_of s o1" "v4_routes s"
  shows "\<exists>effs vs. (vs = [] \<or> (\<exists>m. vs = offers o1 s (SourceIP packet) now m)) \<and>
    run_RIPHandler lib o1 o2 now packet s =
      Ret (s\<lparr>ForwardingTable := foldl AddRoute (ForwardingTable s) vs\<rparr>, effs)"
proof (cases "UnmarshalRIPMessage (Payload packet)")
  case (Inl e)
  then show ?thesis by (intro exI [of _ "[]"]) (simp add: run_RIPHandler_def)
next
  case (Inr m)
  have "stack_ok s" using assms(1) by (simp add: node_ok_def)
  note resp = SendRIPResponse_returns [OF this assms(2)]
  obtain es where es: "GetAllRIPEntries s = Ret es"
    using GetAllRIPEntries_returns [OF assms(4)] by (rule returnsE)
  obtain effs where effs: "SendRIPResponse lib o1 o2 s (SourceIP packet) es = Ret effs"
    using resp by (rule returnsE)
  obtain effs' where resp': "ProcessRIPResponse lib o1 o2 now s (SourceIP packet) m =
      Ret (s\<lparr>ForwardingTable := foldl AddRoute (ForwardingTable s) (offers o1 s (SourceIP packet) now m)\<rparr>, effs')"
    using ProcessRIPResponse_returns [OF assms(1-3)] by blast
  consider "command m = RIP_REQUEST" | "command m = RIP_RESPONSE" "command m \<noteq> RIP_REQUEST"
    | "command m \<noteq> RIP_REQUEST" "command m \<noteq> RIP_RESPONSE" by blast
  then show ?thesis
  proof cases
    case 1
    then show ?thesis using Inr es effs by (intro exI [of _ effs] exI [of _ "[]"]) (simp add: run_RIPHandler_def)
  next
    case 2
    then show ?thesis using Inr resp'
      by (intro exI [of _ effs'] exI [of _ "offers o1 s (SourceIP packet) now m"])
         (auto simp: run_RIPHandler_def)
  next
    case 3
    then show ?thesis using Inr by (intro exI [of _ "[]"]) (simp add: run_RIPHandler_def)
  qed
qed

lemma rip_handler_keeps:
  assumes "node_ok s" "v4_routes s" "marshals lib" "order_of s o1"
  shows "\<exists>ft effs. run_RIPHandler lib o1 o2 now packet s = Ret (s\<lparr>ForwardingTable := ft\<rparr>, effs) \<and>
    node_ok (s\<lparr>ForwardingTable := ft\<rparr>) \<and> v4_routes (s\<lparr>ForwardingTable := ft\<rparr>) \<and>
    (\<forall>e \<in> set (ForwardingTable s). Source e \<noteq> SourceRIP \<longrightarrow>
       route_for ft (DestinationPrefix e) = Some e)"
proof -
  have ok: "table_ok (ForwardingTable s)" using assms(1) by (simp add: node_ok_def stack_ok_def)
  obtain effs vs where vs: "vs = [] \<or> (\<exists>m. vs = offers o1 s (SourceIP packet) now m)"
    and run: "run_RIPHandler lib o1 o2 now packet s =
      Ret (s\<lparr>ForwardingTable := foldl AddRoute (ForwardingTable s) vs\<rparr>, effs)"
    using run_RIPHandler_cases [OF assms(1,3,4,2)] by blast
  let ?ft = "foldl AddRoute (ForwardingTable s) vs"
  have "node_ok (s\<lparr>ForwardingTable := ?ft\<rparr>)"
    using vs node_ok_offers [OF assms(1,4)] assms(1) by auto
  moreover have "v4_routes (s\<lparr>ForwardingTable := ?ft\<rparr>)"
    using vs assms(2) foldl_AddRoute_origin [OF _ ok, of _ vs]
    by (fastforce simp: v4_routes_def offers_def)
  moreover have "route_for ?ft (DestinationPrefix e) = Some e"
    if e: "e \<in> set (ForwardingTable s)" "Source e \<noteq> SourceRIP" for e
  proof (rule ft.foldl_keeps [OF ok route_for_mem [OF ok e(1)]])
    fix v assume "v \<in> set vs"
    then have "1 \<le> Metric v" using vs offers_range by auto
    moreover have "Metric e \<le> 1" using assms(1) e by (auto simp: node_ok_def rip_ok_def)
    ultimately show "Metric e \<le> Metric v" by simp
  qed
  ultimately show ?thesis using run by blast
qed


lemma ex_node_ok: "node_ok ex_stack" "v4_routes ex_stack"
  using ex_stack_ok
  by (auto simp: node_ok_def rip_ok_def v4_routes_def ex_stack_def PrefixFrom_def)


end
