(* ===== verification/RIP_Timers.thy ===== *)
theory RIP_Timers
  imports RIP_Props "HOL-Library.Sublist"
begin

text \<open>
  What is announced to whom, and what the timeout check does to the table: poison reverse, the
  safety and the progress of a tick of \<open>RIPTimeoutCheck\<close>, and two places where the code
  falls short of its intent, a tick that skips expired routes and refreshes that are lost.
\<close>

section \<open>Split horizon with poison reverse\<close>

definition poisoned :: "RIPMessageEntry \<Rightarrow> RIPMessageEntry" where
  "poisoned e = \<lparr>entry_cost = 16, entry_address = entry_address e, entry_mask = entry_mask e\<rparr>"

lemma applyPoisonReverse_eq:
  assumes "neighbor \<noteq> NoAddr"
  shows "applyPoisonReverse s es neighbor =
    map (\<lambda>e. case route_for (ForwardingTable s) (entry_prefix e) of
           Some r \<Rightarrow> if NextHop r = neighbor then poisoned e else e
         | None \<Rightarrow> e) es"
  using assms
  by (induction es)
     (auto simp: applyPoisonReverse_def Lookup_route_for poisoned_def zeroEntry_def Let_def
       split: option.splits)

text \<open>Announcing a route and reading the announcement give the route's prefix and metric.\<close>

definition announceable :: "ForwardingTableEntry \<Rightarrow> bool" where
  "announceable r \<longleftrightarrow> (\<exists>w. prefix_ip (DestinationPrefix r) = IPv4 w) \<and> Bits (DestinationPrefix r) \<le> 32 \<and>
     0 \<le> Metric r \<and> Metric r < 2 ^ 32"

lemma uint_of_int_32: "uint (word_of_int k :: u32) = k mod 4294967296"
  by (simp only: uint_word_of_int) simp

lemma rip_entry_of_prefix:
  assumes "announceable r"
  shows "\<exists>e. rip_entry_of r = Ret e \<and> entry_prefix e = DestinationPrefix r \<and> uint (entry_cost e) = Metric r"
proof -
  obtain w n where p: "DestinationPrefix r = Prefix (IPv4 w) n" and n: "n \<le> 33"
    using assms unfolding announceable_def Bits_def by (cases "DestinationPrefix r") auto
  have ip: "push_bit 24 (ucast (ucast (drop_bit 24 w) :: byte)) OR
      push_bit 16 (ucast (ucast (drop_bit 16 w) :: byte)) OR
      push_bit 8 (ucast (ucast (drop_bit 8 w) :: byte)) OR ucast (ucast w :: byte) = w"
    using Uint32_Put [of w] by (simp add: Uint32_def ac_simps)
  have "uint (word_of_int (int n - 1) :: u32) = (if n = 0 then 4294967295 else int n - 1)"
    using n by (cases "n = 0") (simp_all only: uint_of_int_32, simp_all)
  then have "PrefixFrom (IPv4 w) (uint (word_of_int (int n - 1) :: u32)) = Prefix (IPv4 w) n"
    using n by (auto simp: PrefixFrom_def)
  moreover have "uint (word_of_int (Metric r) :: u32) = Metric r"
    using assms by (simp add: announceable_def uint_of_int_32)
  ultimately show ?thesis
    by (simp add: rip_entry_of_def As4_def p ip Let_def entry_prefix_def Bits_def)
qed

lemma GetAllRIPEntries_eq:
  assumes "\<forall>r \<in> set rs. announceable r"
  shows "\<exists>es. forG (\<lambda>entry. mapG (\<lambda>e. [e]) (rip_entry_of entry)) rs = Ret es \<and>
    list_all2 (\<lambda>r e. entry_prefix e = DestinationPrefix r \<and> uint (entry_cost e) = Metric r) rs es"
  using assms
proof (induction rs)
  case (Cons r rs)
  obtain e where "rip_entry_of r = Ret e" "entry_prefix e = DestinationPrefix r" "uint (entry_cost e) = Metric r"
    using rip_entry_of_prefix [of r] Cons.prems by auto
  with Cons show ?case by fastforce
qed simp

text \<open>
  C11. Split horizon with poison reverse. What a node announces to a neighbour in a periodic
  update lists the prefixes of its table in order, each with the route's metric, except that the
  routes learned through this very neighbour carry cost 16, which the neighbour cannot use.
\<close>

theorem poison_reverse:
  assumes "table_ok (ForwardingTable s)" "\<forall>r \<in> set (ForwardingTable s). announceable r"
    and "neighbor \<noteq> NoAddr"
  shows "\<exists>es. GetAllRIPEntries s = Ret es \<and>
    length (applyPoisonReverse s es neighbor) = length (ForwardingTable s) \<and>
    (\<forall>i < length (ForwardingTable s).
       let r = ForwardingTable s ! i; e = applyPoisonReverse s es neighbor ! i
       in entry_prefix e = DestinationPrefix r \<and>
          uint (entry_cost e) = (if NextHop r = neighbor then 16 else Metric r) \<and>
          (NextHop r = neighbor \<longrightarrow> \<not> usable e))"
proof -
  obtain es where es: "GetAllRIPEntries s = Ret es"
    and all: "list_all2 (\<lambda>r e. entry_prefix e = DestinationPrefix r \<and> uint (entry_cost e) = Metric r)
      (ForwardingTable s) es"
    using GetAllRIPEntries_eq [OF assms(2)] unfolding GetAllRIPEntries_def by blast
  have "entry_prefix (poisoned e) = entry_prefix e" "uint (entry_cost (poisoned e)) = 16"
    "\<not> usable (poisoned e)" for e
    by (simp_all add: poisoned_def entry_prefix_def usable_def)
  moreover have "route_for (ForwardingTable s) (DestinationPrefix (ForwardingTable s ! i)) =
      Some (ForwardingTable s ! i)" if "i < length (ForwardingTable s)" for i
    using route_for_mem [OF assms(1)] that by simp
  ultimately show ?thesis
    using es list_all2_lengthD [OF all] list_all2_nthD [OF all]
    by (simp add: applyPoisonReverse_eq [OF assms(3)] Let_def)
qed

theorem poison_reverse_witness:
  "\<exists>es. GetAllRIPEntries ex_stack = Ret es \<and>
    length (applyPoisonReverse ex_stack es (IPv4 0x0a000002)) = length (ForwardingTable ex_stack)"
proof -
  have "table_ok (ForwardingTable ex_stack)" using ex_stack_ok by (simp add: stack_ok_def)
  moreover have "\<forall>r \<in> set (ForwardingTable ex_stack). announceable r"
    by (auto simp: ex_stack_def announceable_def PrefixFrom_def Bits_def)
  ultimately show ?thesis
    using poison_reverse [of ex_stack "IPv4 0x0a000002"] by auto
qed

section \<open>The timeout check\<close>

lemma subseq_delete: "subseq (take i xs @ drop (Suc i) xs) xs"
proof (cases "i < length xs")
  case True
  have "subseq (take i xs @ drop (Suc i) xs) (take i xs @ xs ! i # drop (Suc i) xs)"
    by (intro list_emb_append_mono list_emb_Cons subseq_order.order_refl)
  with True show ?thesis by (simp add: take_nth_drop_Suc)
qed simp

lemma table_ok_subseq: "subseq xs ft \<Longrightarrow> table_ok ft \<Longrightarrow> table_ok xs"
  unfolding table_ok_def by (metis subseq_map subseq_conv_nths distinct_nthsI)

lemma subseq_set: "subseq xs ys \<Longrightarrow> set xs \<subseteq> set ys"
  by (auto simp: subseq_conv_nths dest: in_set_nthsD)

text \<open>The loop invariant of a tick over the table \<open>ft\<close> the range started with.\<close>

definition tick_inv :: "(ForwardingTableEntry \<Rightarrow> bool) \<Rightarrow> ForwardingTable \<Rightarrow> ForwardingTableEntry slice \<Rightarrow> bool" where
  "tick_inv gone ft sl \<longleftrightarrow> slice_ok sl \<and> length (arr sl) = length ft \<and> set (arr sl) \<subseteq> set ft \<and>
     subseq (live sl) ft \<and> filter (\<lambda>e. \<not> gone e) (live sl) = filter (\<lambda>e. \<not> gone e) ft"

lemma tick_inv_start: "tick_inv gone ft (slice_of ft)"
  by (simp add: tick_inv_def)

lemma RemoveRoute_slice_inv:
  assumes ok: "table_ok ft" and inv: "tick_inv gone ft sl" and e: "e \<in> set ft" "gone e"
  shows "tick_inv gone ft (RemoveRoute_slice (DestinationPrefix e) sl)"
proof (cases "find_index (\<lambda>x. DestinationPrefix x = DestinationPrefix e) (live sl)")
  case (Some i)
  have sok: "slice_ok sl" and sub: "subseq (live sl) ft" using inv by (simp_all add: tick_inv_def)
  from find_index_Some [OF Some] have i: "i < length (live sl)"
    and k: "DestinationPrefix (live sl ! i) = DestinationPrefix e" by auto
  have "live sl ! i \<in> set ft" using i subseq_set [OF sub] by (meson nth_mem subsetD)
  then have "live sl ! i = e"
    using ok e(1) k unfolding table_ok_def by (metis distinct_map inj_onD)
  moreover have "live sl = take i (live sl) @ live sl ! i # drop (Suc i) (live sl)"
    using i by (simp add: take_nth_drop_Suc)
  ultimately have "filter (\<lambda>x. \<not> gone x) (take i (live sl) @ drop (Suc i) (live sl)) =
      filter (\<lambda>x. \<not> gone x) (live sl)"
    using e(2) by (metis filter.simps(2) filter_append)
  then show ?thesis
    using inv i Some subseq_order.trans [OF subseq_delete sub] arr_slice_delete_subset [of i sl]
    by (auto simp: RemoveRoute_slice_def tick_inv_def live_slice_delete length_live slice_ok_delete)
qed (use inv in \<open>simp add: RemoveRoute_slice_def\<close>)

lemma timeout_visit_inv:
  assumes "table_ok ft" "tick_inv (expired now timeout) ft sl" "i < length ft"
  shows "tick_inv (expired now timeout) ft (timeout_visit now timeout i sl)"
proof -
  have "arr sl ! i \<in> set ft" using assms(2,3) by (auto simp: tick_inv_def dest: nth_mem)
  then show ?thesis
    using RemoveRoute_slice_inv [OF assms(1,2)] assms(2) by (simp add: timeout_visit_def Let_def)
qed

lemma timeout_visits_inv:
  "table_ok ft \<Longrightarrow> tick_inv (expired now timeout) ft sl \<Longrightarrow> \<forall>i \<in> set is. i < length ft \<Longrightarrow>
   tick_inv (expired now timeout) ft (fold (timeout_visit now timeout) is sl)"
  by (induction "is" arbitrary: sl) (simp_all add: timeout_visit_inv)

lemma tick_table_inv:
  "table_ok ft \<Longrightarrow>
   tick_inv (expired now timeout) ft (fold (timeout_visit now timeout) [0..<length ft] (slice_of ft))"
  by (rule timeout_visits_inv [OF _ tick_inv_start]) auto

text \<open>
  C12. Safety of a timeout tick. It changes nothing but the table; every route that is local,
  static or not older than the timeout stays, in its place in the order; nothing is added; the
  prefixes stay distinct.
\<close>

theorem timeout_tick_safe:
  assumes "table_ok (ForwardingTable s)"
  shows "\<exists>ft. RIPTimeoutCheck_tick now timeout s = s\<lparr>ForwardingTable := ft\<rparr> \<and> table_ok ft \<and>
    subseq ft (ForwardingTable s) \<and>
    filter (\<lambda>e. \<not> expired now timeout e) ft = filter (\<lambda>e. \<not> expired now timeout e) (ForwardingTable s)"
  using tick_table_inv [OF assms, of now timeout] table_ok_subseq [OF _ assms]
  unfolding RIPTimeoutCheck_tick_def tick_inv_def by blast

theorem timeout_tick_safe_witness:
  "\<exists>ft. RIPTimeoutCheck_tick 100 12 ex_stack = ex_stack\<lparr>ForwardingTable := ft\<rparr> \<and> table_ok ft"
  using timeout_tick_safe [of ex_stack 100 12] ex_stack_ok by (auto simp: stack_ok_def)

text \<open>The first expired route goes: earlier visits change nothing.\<close>

lemma visits_idle:
  "\<forall>i \<in> set is. \<not> expired now timeout (arr sl ! i) \<Longrightarrow> fold (timeout_visit now timeout) is sl = sl"
  by (induction "is") (simp_all add: timeout_visit_def)

lemma slen_visits_le: "slen (fold (timeout_visit now timeout) is sl) \<le> slen sl"
proof (induction "is" arbitrary: sl)
  case (Cons i "is")
  have "slen (timeout_visit now timeout i sl) \<le> slen sl"
    by (simp add: timeout_visit_def RemoveRoute_slice_def Let_def split: option.split)
  with Cons.IH [of "timeout_visit now timeout i sl"] show ?case by simp
qed simp

lemma tick_removes:
  assumes ok: "table_ok ft" and some: "\<exists>e \<in> set ft. expired now timeout e"
  shows "length (live (fold (timeout_visit now timeout) [0..<length ft] (slice_of ft))) < length ft"
proof -
  let ?visit = "timeout_visit now timeout" and ?sl = "slice_of ft"
  have "\<exists>i. i < length ft \<and> expired now timeout (ft ! i)" using some by (auto simp: in_set_conv_nth)
  from exists_least_iff [THEN iffD1, OF this] obtain i
    where i: "i < length ft" "expired now timeout (ft ! i)"
      and first: "\<forall>j < i. \<not> (j < length ft \<and> expired now timeout (ft ! j))" by blast
  have "[0..<length ft] = [0..<i] @ i # [Suc i..<length ft]"
    using i(1) upt_add_eq_append [of 0 i "length ft - i"] by (simp add: upt_conv_Cons)
  moreover have "fold ?visit [0..<i] ?sl = ?sl" by (rule visits_idle) (use i(1) first in auto)
  ultimately have run: "fold ?visit [0..<length ft] ?sl = fold ?visit [Suc i..<length ft] (?visit i ?sl)"
    by simp
  have "find_index (\<lambda>x. DestinationPrefix x = DestinationPrefix (ft ! i)) ft \<noteq> None"
    using i(1) by (auto simp: find_index_None)
  then have "slen (?visit i ?sl) = length ft - 1"
    using i(2) by (auto simp: timeout_visit_def RemoveRoute_slice_def Let_def)
  then have "slen (fold ?visit [0..<length ft] ?sl) \<le> length ft - 1"
    using slen_visits_le [of now timeout "[Suc i..<length ft]" "?visit i ?sl"] run by simp
  then show ?thesis
    using i(1) by (simp add: live_def)
qed

lemma expired_mono: "expired t timeout e \<Longrightarrow> t \<le> t' \<Longrightarrow> expired t' timeout e"
  by (auto simp: expired_def time_Sub_def)

text \<open>One tick at a time removes at least one of the routes expired then.\<close>

lemma tick_progress:
  assumes ok: "table_ok ft" and le: "t \<le> T"
    and ft': "ft' = live (fold (timeout_visit t timeout) [0..<length ft] (slice_of ft))"
    and some: "\<exists>e \<in> set ft. expired t timeout e"
  shows "length (filter (expired T timeout) ft') < length (filter (expired T timeout) ft)"
proof -
  have inv: "filter (\<lambda>e. \<not> expired t timeout e) ft' = filter (\<lambda>e. \<not> expired t timeout e) ft"
    using tick_table_inv [OF ok, of t timeout] by (simp add: tick_inv_def ft')
  have fresh: "filter (\<lambda>e. \<not> expired T timeout e) xs =
      filter (\<lambda>e. \<not> expired T timeout e) (filter (\<lambda>e. \<not> expired t timeout e) xs)" for xs
    using expired_mono [OF _ le] by (auto intro: filter_cong)
  have "length (filter (\<lambda>e. \<not> expired T timeout e) ft') = length (filter (\<lambda>e. \<not> expired T timeout e) ft)"
    using fresh [of ft] fresh [of ft'] inv by simp
  with tick_removes [OF ok some] sum_length_filter_compl [of "expired T timeout" ft]
    sum_length_filter_compl [of "expired T timeout" ft'] show ?thesis
    by (simp add: ft')
qed

lemma ticks_clear:
  "table_ok (ForwardingTable s) \<Longrightarrow> \<forall>t \<in> set ts. t0 \<le> t \<and> t \<le> T \<Longrightarrow>
   length (filter (expired T timeout) (ForwardingTable s)) \<le> length ts \<Longrightarrow>
   e \<in> set (ForwardingTable (fold (\<lambda>t. RIPTimeoutCheck_tick t timeout) ts s)) \<Longrightarrow>
   t0 \<le> T \<Longrightarrow> \<not> expired t0 timeout e"
proof (induction ts arbitrary: s)
  case Nil
  then show ?case using expired_mono by (auto simp: filter_empty_conv)
next
  case (Cons t ts)
  let ?ft = "ForwardingTable s" and ?s' = "RIPTimeoutCheck_tick t timeout s"
  have sub: "subseq (ForwardingTable ?s') ?ft" "table_ok (ForwardingTable ?s')"
    using tick_table_inv [OF Cons.prems(1), of t timeout] table_ok_subseq [OF _ Cons.prems(1)]
    by (auto simp: RIPTimeoutCheck_tick_def tick_inv_def)
  show ?case
  proof (cases "\<exists>e \<in> set ?ft. expired t timeout e")
    case True
    then have "length (filter (expired T timeout) (ForwardingTable ?s')) < length (filter (expired T timeout) ?ft)"
      using tick_progress [OF Cons.prems(1), of t T] Cons.prems(2) by (simp add: RIPTimeoutCheck_tick_def)
    with Cons.IH [OF sub(2)] Cons.prems show ?thesis by simp
  next
    case False
    have "set (ForwardingTable (fold (\<lambda>t. RIPTimeoutCheck_tick t timeout) ts' s')) \<subseteq> set (ForwardingTable s')"
      if "table_ok (ForwardingTable s')" for ts' s'
      using that
    proof (induction ts' arbitrary: s')
      case (Cons u us)
      have "subseq (ForwardingTable (RIPTimeoutCheck_tick u timeout s')) (ForwardingTable s')"
        "table_ok (ForwardingTable (RIPTimeoutCheck_tick u timeout s'))"
        using tick_table_inv [OF Cons.prems, of u timeout] table_ok_subseq [OF _ Cons.prems]
        by (auto simp: RIPTimeoutCheck_tick_def tick_inv_def)
      with Cons.IH subseq_set show ?case by fastforce
    qed simp
    from this [OF Cons.prems(1), of "t # ts"] have "e \<in> set ?ft" using Cons.prems(4) by auto
    with False expired_mono Cons.prems(2) show ?thesis by auto
  qed
qed

text \<open>
  C13. Progress of the timeout check. As many ticks, at whatever times from \<open>t0\<close> on, as there are
  routes expired by the last of them leave no route that was expired at \<open>t0\<close>.
\<close>

theorem timeout_ticks_progress:
  assumes "table_ok (ForwardingTable s)" "\<forall>t \<in> set ts. t0 \<le> t \<and> t \<le> T" "t0 \<le> T"
    and "length (filter (expired T timeout) (ForwardingTable s)) \<le> length ts"
  shows "\<forall>e \<in> set (ForwardingTable (fold (\<lambda>t. RIPTimeoutCheck_tick t timeout) ts s)).
    \<not> expired t0 timeout e"
  using ticks_clear [OF assms(1,2,4) _ assms(3)] by blast

definition ex_rip_route :: "u32 \<Rightarrow> Time \<Rightarrow> ForwardingTableEntry" where
  "ex_rip_route w seen = \<lparr>DestinationPrefix = PrefixFrom (IPv4 w) 24, NextHop = IPv4 0x0a000002,
     Interface = ''if0'', Metric = 2, Source = SourceRIP, LastUpdated = seen\<rparr>"

definition ex_aged :: IPStack where
  "ex_aged = ex_stack\<lparr>ForwardingTable :=
     [ex_rip_route 0x0b000000 0, ex_rip_route 0x0c000000 0, ex_rip_route 0x0d000000 95]\<rparr>"

lemma ex_aged_simps: "table_ok (ForwardingTable ex_aged)"
  "filter (expired 100 12) (ForwardingTable ex_aged) = [ex_rip_route 0x0b000000 0, ex_rip_route 0x0c000000 0]"
  by (simp_all add: ex_aged_def ex_rip_route_def table_ok_def PrefixFrom_def expired_def time_Sub_def)

theorem timeout_ticks_progress_witness:
  "ex_rip_route 0x0b000000 0 \<notin> set (ForwardingTable (fold (\<lambda>t. RIPTimeoutCheck_tick t 12) [90, 100] ex_aged)) \<and>
   ex_rip_route 0x0c000000 0 \<notin> set (ForwardingTable (fold (\<lambda>t. RIPTimeoutCheck_tick t 12) [90, 100] ex_aged))"
proof -
  have "expired 90 12 (ex_rip_route w 0)" for w by (simp add: expired_def ex_rip_route_def time_Sub_def)
  moreover have "\<forall>e \<in> set (ForwardingTable (fold (\<lambda>t. RIPTimeoutCheck_tick t 12) [90, 100] ex_aged)). \<not> expired 90 12 e"
    by (rule timeout_ticks_progress [where T = 100]) (simp_all add: ex_aged_simps)
  ultimately show ?thesis by blast
qed

text \<open>
  C14. A tick may leave expired routes behind. When the two first routes have expired and the later
  ones have not, the removal of the first shifts the second into the slot the range has passed: it
  survives the tick.
\<close>

theorem timeout_tick_skips:
  assumes "table_ok (e1 # e2 # rest)" "rest \<noteq> []" "ForwardingTable s = e1 # e2 # rest"
    and "expired now timeout e1" "expired now timeout e2" "\<forall>e \<in> set rest. \<not> expired now timeout e"
  shows "ForwardingTable (RIPTimeoutCheck_tick now timeout s) = e2 # rest"
proof -
  let ?ft = "e1 # e2 # rest"
  let ?sl = "\<lparr>arr = e2 # rest @ [last rest], slen = Suc (length rest)\<rparr>"
  have "drop (length rest) rest = []" "drop (length rest) (e2 # rest) = [last rest]"
    using assms(2) by (simp_all add: drop_Cons' last_conv_nth Cons_nth_drop_Suc [symmetric])
  then have one: "timeout_visit now timeout 0 (slice_of ?ft) = ?sl"
    using assms(4)
    by (simp add: timeout_visit_def RemoveRoute_slice_def slice_delete_def slice_of_def live_def)
  have "\<not> expired now timeout (arr ?sl ! i)" if "i \<in> set [1..<length ?ft]" for i
  proof -
    have "(rest @ [last rest]) ! (i - 1) \<in> set (rest @ [last rest])"
      using that by (intro nth_mem) auto
    then show ?thesis using assms(2,6) that by (cases i) auto
  qed
  then have "fold (timeout_visit now timeout) [1..<length ?ft] ?sl = ?sl"
    by (intro visits_idle) blast
  moreover have "[0..<length ?ft] = 0 # [1..<length ?ft]"
    using upt_conv_Cons [of 0 "length ?ft"] by (simp del: upt_Suc)
  ultimately have "fold (timeout_visit now timeout) [0..<length ?ft] (slice_of ?ft) = ?sl"
    by (simp only: fold.simps comp_def one)
  then show ?thesis by (simp add: RIPTimeoutCheck_tick_def assms(3) live_def)
qed

theorem timeout_tick_skips_witness:
  "ForwardingTable (RIPTimeoutCheck_tick 100 12 ex_aged) = [ex_rip_route 0x0c000000 0, ex_rip_route 0x0d000000 95]"
  by (rule timeout_tick_skips [where ?e1.0 = "ex_rip_route 0x0b000000 0"])
     (simp_all add: ex_aged_def ex_rip_route_def table_ok_def PrefixFrom_def expired_def time_Sub_def)

text \<open>
  C15. A refresh is lost. A response that offers a known route's prefix at no better cost leaves
  the entry exactly as it was, also when the sender is the route's own next hop: neither the
  time stamp nor a worse metric or a withdrawal (cost 16) from the next hop is recorded.
\<close>

theorem refresh_lost:
  assumes "table_ok (ForwardingTable s)" "route_for (ForwardingTable s) p = Some r"
    and "\<forall>e \<in> set (entries m). entry_prefix e = p \<longrightarrow> Metric r \<le> uint (entry_cost e) + 1"
    and "ProcessRIPResponse lib o1 o2 now s (NextHop r) m = Ret (s', effs)"
  shows "route_for (ForwardingTable s') p = Some r"
proof -
  have "Metric r \<le> Metric v" if "v \<in> set (offers o1 s (NextHop r) now m)" "DestinationPrefix v = p" for v
    using assms(3) that by (auto simp: offers_def)
  then show ?thesis
    using ft.foldl_keeps [OF assms(1,2)] ProcessRIPResponse_table [OF assms(4)] by simp
qed

definition ex_refresh :: RIPMessage where
  "ex_refresh = \<lparr>command = RIP_RESPONSE, num_entries = 2,
     entries = [\<lparr>entry_cost = 1, entry_address = 0x0b000000, entry_mask = 24\<rparr>,
                \<lparr>entry_cost = 16, entry_address = 0x0c000000, entry_mask = 24\<rparr>]\<rparr>"

theorem refresh_lost_witness:
  "\<exists>s'. ProcessRIPResponse ex_lib [''if0''] [''if0''] 100 ex_aged (IPv4 0x0a000002) ex_refresh = Ret (s', []) \<and>
     route_for (ForwardingTable s') (PrefixFrom (IPv4 0x0b000000) 24) = Some (ex_rip_route 0x0b000000 0)"
proof -
  let ?run = "ProcessRIPResponse ex_lib [''if0''] [''if0''] 100 ex_aged (IPv4 0x0a000002) ex_refresh"
  have run: "?run = Ret (ex_aged, [])"
    by (simp add: ProcessRIPResponse_def ex_refresh_def ex_aged_def ex_rip_route_def process_entry_def
        entry_prefix_def Let_def)
  have "route_for (ForwardingTable ex_aged) (PrefixFrom (IPv4 0x0b000000) 24) = Some (ex_rip_route 0x0b000000 0)"
    by (simp add: ex_aged_def ex_rip_route_def)
  then show ?thesis
    using refresh_lost [of ex_aged "PrefixFrom (IPv4 0x0b000000) 24" "ex_rip_route 0x0b000000 0" ex_refresh
        ex_lib "[''if0'']" "[''if0'']" 100 ex_aged "[]"] run ex_aged_simps(1)
    by (simp add: ex_rip_route_def ex_refresh_def entry_prefix_def PrefixFrom_def)
qed

end
