(* ===== verification/TCP_Packet.thy ===== *)
theory TCP_Packet
  imports Prelude
begin

text \<open>
  TCP segments (\<open>pkg/tcpstack/tcp_packet.go\<close> and the header type and flags of \<open>types.go\<close>):
  parsing, serialising and the Internet checksum over the pseudo header.
  \<^item> A received segment is a slice: its bytes \<open>data\<close> and the bytes \<open>spare\<close> between its length
    and its capacity, which a slice expression \<open>data[a:b]\<close> may still reach. An index beyond
    the length, or a slice beyond the capacity, is \<open>Panic\<close>.
  \<^item> A \<open>nil\<close> result slice is the empty list.
\<close>

section \<open>Headers\<close>

record TCPHeader =
  SourcePort :: u16
  DestPort :: u16
  SeqNum :: u32
  AckNum :: u32
  DataOffset :: u8
  TFlags :: u8
  WindowSize :: u16
  TChecksum :: u16
  UrgentPtr :: u16

definition TCP_FIN :: u8 where "TCP_FIN = push_bit 0 1"
definition TCP_SYN :: u8 where "TCP_SYN = push_bit 1 1"
definition TCP_RST :: u8 where "TCP_RST = push_bit 2 1"
definition TCP_PSH :: u8 where "TCP_PSH = push_bit 3 1"
definition TCP_ACK :: u8 where "TCP_ACK = push_bit 4 1"

lemmas flag_defs = TCP_FIN_def TCP_SYN_def TCP_RST_def TCP_PSH_def TCP_ACK_def

definition MAX_TCP_PAYLOAD :: nat where "MAX_TCP_PAYLOAD = 1000"

text \<open>Reads from a slice: \<open>data[i]\<close> and \<open>data[i:i+2]\<close>, \<open>data[i:i+4]\<close> on its backing array.\<close>

definition index :: "byte list \<Rightarrow> nat \<Rightarrow> byte go" where
  "index data i = (if i < length data then Ret (data ! i) else Panic)"

definition slice16 :: "byte list \<Rightarrow> nat \<Rightarrow> u16 go" where
  "slice16 backing i =
     (if i + 2 \<le> length backing then Ret (Uint16 (backing ! i) (backing ! (i + 1))) else Panic)"

definition slice32 :: "byte list \<Rightarrow> nat \<Rightarrow> u32 go" where
  "slice32 backing i =
     (if i + 4 \<le> length backing
      then Ret (Uint32 (backing ! i) (backing ! (i + 1)) (backing ! (i + 2)) (backing ! (i + 3)))
      else Panic)"

definition ParseTCPHeader :: "byte list \<Rightarrow> byte list \<Rightarrow> (TCPHeader \<times> byte list) go" where
  "ParseTCPHeader data spare =
     (let backing = data @ spare in
      bindG (slice16 backing 0) (\<lambda>sourcePort.
      bindG (slice16 backing 2) (\<lambda>destPort.
      bindG (slice32 backing 4) (\<lambda>seqNum.
      bindG (slice32 backing 8) (\<lambda>ackNum.
      bindG (index data 12) (\<lambda>b12.
      bindG (index data 13) (\<lambda>flags.
      bindG (slice16 backing 14) (\<lambda>windowSize.
      bindG (slice16 backing 16) (\<lambda>checksum.
      bindG (slice16 backing 18) (\<lambda>urgentPtr.
        let header = \<lparr>SourcePort = sourcePort, DestPort = destPort, SeqNum = seqNum, AckNum = ackNum,
                      DataOffset = drop_bit 4 b12, TFlags = flags, WindowSize = windowSize,
                      TChecksum = checksum, UrgentPtr = urgentPtr\<rparr>;
            headerLen = unat (DataOffset header) * 4
        in if headerLen \<le> length data then Ret (header, drop headerLen data) else Panic))))))))))"

definition serializeTCPPacket :: "TCPHeader \<Rightarrow> byte list \<Rightarrow> byte list" where
  "serializeTCPPacket header payload =
     (if MAX_TCP_PAYLOAD < length payload then []
      else PutUint16 (SourcePort header) @ PutUint16 (DestPort header) @ PutUint32 (SeqNum header) @
        PutUint32 (AckNum header) @ [push_bit 4 (DataOffset header), TFlags header] @
        PutUint16 (WindowSize header) @ PutUint16 0 @ PutUint16 (UrgentPtr header) @ payload)"

section \<open>The checksum\<close>

fun sum16 :: "byte list \<Rightarrow> u32 \<Rightarrow> u32" where
  "sum16 (a # b # rest) s = sum16 rest (s + ucast (Uint16 a b))"
| "sum16 _ s = s"

lemma unat_drop16: "unat (drop_bit 16 (s :: u32)) = unat s div 65536"
  by (simp add: drop_bit_eq_div unat_div)

lemma unat_u16_le: "unat (w :: u16) \<le> 65535"
  using unsigned_less [of w, where 'a = nat] by simp

lemma unat_u16_u32: "unat (ucast (w :: u16) :: u32) = unat w"
  using unat_u16_le [of w] by (simp add: unsigned_ucast_eq take_bit_nat_eq_self)

lemma fold_carry_less: "drop_bit 16 (s :: u32) \<noteq> 0 \<Longrightarrow>
  unat ((s AND 0xFFFF) + drop_bit 16 s) < unat s \<and>
  unat ((s AND 0xFFFF) + drop_bit 16 s) = unat s mod 65536 + unat s div 65536"
proof -
  assume hi: "drop_bit 16 s \<noteq> 0"
  have mask: "s AND 0xFFFF = take_bit 16 s" by (simp add: take_bit_eq_mask mask_eq_exp_minus_1)
  have lo': "unat (s AND 0xFFFF) = unat s mod 65536"
    by (simp only: mask unsigned_take_bit_eq) (simp add: take_bit_eq_mod)
  note hi' = unat_drop16 [of s]
  have "unat s div 65536 < 65536" using unsigned_less [of s, where 'a = nat] by (simp add: less_mult_imp_div_less)
  then have "unat (s AND 0xFFFF) + unat (drop_bit 16 s) < 2 ^ LENGTH(32)" by (simp add: lo' hi')
  then have sum: "unat ((s AND 0xFFFF) + drop_bit 16 s) = unat s mod 65536 + unat s div 65536"
    by (simp add: unat_add_lem [THEN iffD1] lo' hi')
  have "0 < unat s div 65536" using hi hi' by (metis gr0I unsigned_eq_0_iff)
  moreover have "unat s = 65536 * (unat s div 65536) + unat s mod 65536" by simp
  ultimately show ?thesis using sum by linarith
qed

function fold_carry :: "u32 \<Rightarrow> u32" where
  "fold_carry s = (if drop_bit 16 s \<noteq> 0 then fold_carry ((s AND 0xFFFF) + drop_bit 16 s) else s)"
  by pat_completeness auto
termination by (relation "measure unat") (auto intro: fold_carry_less [THEN conjunct1])

declare fold_carry.simps [simp del]

definition copy4 :: "byte list \<Rightarrow> byte list" where
  "copy4 ip = take 4 (ip @ replicate 4 0)"

definition computeChecksum :: "byte list \<Rightarrow> byte list \<Rightarrow> u8 \<Rightarrow> byte list \<Rightarrow> u16" where
  "computeChecksum srcIP dstIP protocol tcpPacket =
     (let pseudoHeader = copy4 srcIP @ copy4 dstIP @ [0, protocol] @ PutUint16 (word_of_nat (length tcpPacket));
          checksumData = pseudoHeader @ tcpPacket @ (if odd (length tcpPacket) then [0] else []);
          s = fold_carry (sum16 checksumData 0)
      in NOT (ucast s))"

text \<open>The low 32 bits of the clock in nanoseconds.\<close>

definition generateInitialSeqNum :: "int \<Rightarrow> u32" where
  "generateInitialSeqNum unixNano = word_of_int unixNano"

section \<open>Lemmas\<close>

lemma ParseTCPHeader_Ret:
  assumes "14 \<le> length data" "20 \<le> length data + length spare"
    and "unat (drop_bit 4 (data ! 12)) * 4 \<le> length data"
  shows "returns (ParseTCPHeader data spare)"
  using assms by (simp add: ParseTCPHeader_def Let_def slice16_def slice32_def index_def)

lemma ParseTCPHeader_Panic:
  assumes "\<not> (14 \<le> length data \<and> 20 \<le> length data + length spare \<and>
    unat (drop_bit 4 (data ! 12)) * 4 \<le> length data)"
  shows "ParseTCPHeader data spare = Panic"
  using assms by (auto simp: ParseTCPHeader_def Let_def slice16_def slice32_def index_def)

lemma serializeTCPPacket_length:
  "length (serializeTCPPacket h payload) = (if length payload \<le> 1000 then 20 + length payload else 0)"
  by (simp add: serializeTCPPacket_def MAX_TCP_PAYLOAD_def)

lemma parse_serialize:
  assumes "length payload \<le> 1000" "DataOffset h = 5"
  shows "ParseTCPHeader (serializeTCPPacket h payload) spare = Ret (h\<lparr>TChecksum := 0\<rparr>, payload)"
proof -
  have "drop_bit 4 (push_bit 4 (5 :: u8)) = 5" by code_simp
  with assms show ?thesis
    by (cases h)
       (simp add: ParseTCPHeader_def serializeTCPPacket_def MAX_TCP_PAYLOAD_def PutUint16_def PutUint32_def
         slice16_def slice32_def index_def Let_def)
qed

section \<open>The sum as a number\<close>

text \<open>What the word loop computes: the sum of the big-endian 16-bit words, reduced modulo 65535.\<close>

fun nsum :: "byte list \<Rightarrow> nat" where
  "nsum (a # b # rest) = unat (Uint16 a b) + nsum rest"
| "nsum _ = 0"

lemma nsum_bound: "nsum bs \<le> 65535 * (length bs div 2)"
proof (induction bs rule: nsum.induct)
  case (1 a b rest)
  with unat_u16_le [of "Uint16 a b"] show ?case by simp
qed simp_all

lemma nsum_small: "length bs \<le> 65548 \<Longrightarrow> nsum bs < 2 ^ 32"
proof -
  assume "length bs \<le> 65548"
  then have "65535 * (length bs div 2) \<le> 65535 * 32774" by (intro mult_le_mono2) simp
  with nsum_bound [of bs] show ?thesis by simp
qed

lemma nsum_append: "even (length xs) \<Longrightarrow> nsum (xs @ ys) = nsum xs + nsum ys"
  by (induction xs rule: nsum.induct) simp_all

lemma sum16_nsum: "unat s + nsum bs < 2 ^ 32 \<Longrightarrow> unat (sum16 bs s) = unat s + nsum bs"
proof (induction bs s rule: sum16.induct)
  case (1 a b rest s)
  note u = unat_u16_u32 [of "Uint16 a b"]
  then have "unat (s + ucast (Uint16 a b)) = unat s + unat (Uint16 a b)"
    using 1(2) by (intro unat_add_lem [THEN iffD1, THEN trans]) simp_all
  with 1 show ?case by simp
qed simp_all

lemma fold_carry_unat:
  "unat (fold_carry s) < 65536 \<and> unat (fold_carry s) mod 65535 = unat s mod 65535 \<and>
   (unat (fold_carry s) = 0 \<longleftrightarrow> unat s = 0)"
proof (induction s rule: fold_carry.induct)
  case (1 s)
  show ?case
  proof (cases "drop_bit 16 s = 0")
    case True
    then have "unat s div 65536 = 0" by (simp only: unat_drop16 [symmetric]) simp
    then have "unat s < 65536" by (simp add: div_eq_0_iff)
    then show ?thesis using True by (simp add: fold_carry.simps [of s])
  next
    case False
    let ?s = "(s AND 0xFFFF) + drop_bit 16 s"
    have u: "unat ?s = unat s mod 65536 + unat s div 65536" using fold_carry_less [OF False] by blast
    have "unat s = 65536 * (unat s div 65536) + unat s mod 65536" by simp
    then have "unat s = unat ?s + 65535 * (unat s div 65536)" using u by linarith
    moreover from this have "unat s mod 65535 = unat ?s mod 65535" by (metis mod_mult_self2)
    moreover have "unat ?s = 0 \<longleftrightarrow> unat s = 0" using u by (auto simp: div_eq_0_iff)
    moreover have "fold_carry s = fold_carry ?s" using False by (subst fold_carry.simps) simp
    ultimately show ?thesis using "1.IH" [OF False] by simp
  qed
qed

section \<open>Properties\<close>

text \<open>
  C16. Round trip. A segment of at most 1000 payload bytes serialises to 20 bytes plus the
  payload, and parsing it gives back every header field and the payload; the checksum field is
  always sent as zero. A longer payload serialises to nothing at all.
\<close>

theorem tcp_segment_roundtrip:
  "(length payload \<le> 1000 \<and> DataOffset h = 5 \<longrightarrow>
      length (serializeTCPPacket h payload) = 20 + length payload \<and>
      ParseTCPHeader (serializeTCPPacket h payload) spare = Ret (h\<lparr>TChecksum := 0\<rparr>, payload)) \<and>
   (1000 < length payload \<longrightarrow> serializeTCPPacket h payload = [])"
  by (auto simp: serializeTCPPacket_length parse_serialize) (simp add: serializeTCPPacket_def MAX_TCP_PAYLOAD_def)

definition example_header :: TCPHeader where
  "example_header = \<lparr>SourcePort = 49152, DestPort = 80, SeqNum = 0xdeadbeef, AckNum = 7, DataOffset = 5,
     TFlags = TCP_ACK, WindowSize = 65535, TChecksum = 99, UrgentPtr = 0\<rparr>"

theorem tcp_segment_roundtrip_witness:
  "ParseTCPHeader (serializeTCPPacket example_header [1, 2, 3]) [0, 0] =
     Ret (example_header\<lparr>TChecksum := 0\<rparr>, [1, 2, 3])"
  using tcp_segment_roundtrip [of "[1, 2, 3]" example_header "[0, 0]"] by (simp add: example_header_def)

text \<open>
  C17. Which segments crash the parser. \<open>ParseTCPHeader\<close> panics exactly on a segment of fewer
  than 14 bytes, on one whose slice holds fewer than 20 bytes of capacity, and on one whose data
  offset points past its end; on every other input it returns.
\<close>

theorem parse_panics_iff:
  "(ParseTCPHeader data spare = Panic \<longleftrightarrow>
      length data < 14 \<or> length data + length spare < 20 \<or>
      length data < 4 * unat (drop_bit 4 (data ! 12))) \<and>
   ParseTCPHeader data spare \<noteq> Block"
proof (cases "14 \<le> length data \<and> 20 \<le> length data + length spare \<and>
    unat (drop_bit 4 (data ! 12)) * 4 \<le> length data")
  case True
  then have "returns (ParseTCPHeader data spare)" by (intro ParseTCPHeader_Ret) auto
  with True show ?thesis by (auto elim!: returnsE)
next
  case False
  with ParseTCPHeader_Panic [OF False] show ?thesis by auto
qed

lemma unat_NOT_u16: "unat (NOT w :: u16) = 65535 - unat w"
proof -
  have "NOT w = - 1 - w" unfolding not_eq_complement by (rule minus_diff_commute)
  moreover have "unat (- 1 :: u16) = 65535" by (simp add: unsigned_minus_1_eq_mask mask_eq_exp_minus_1)
  ultimately show ?thesis by (simp add: unat_sub)
qed

lemma complement_mod: "S' + f = S + k \<Longrightarrow> f mod k = S mod k \<Longrightarrow> S' mod k = (0 :: nat)"
proof -
  assume a: "S' + f = S + k" "f mod k = S mod k"
  then have "(S' + f) mod k = f mod k" by simp
  then show ?thesis by (simp add: mod_eq_dvd_iff_nat [of f "S' + f"])
qed

lemma fold_carry_complement:
  assumes "unat s' = unat s + unat (NOT (ucast (fold_carry s)) :: u16)"
  shows "NOT (ucast (fold_carry s')) = (0 :: u16)"
proof -
  have f: "unat (fold_carry s) < 65536" "unat (fold_carry s) mod 65535 = unat s mod 65535"
    "unat (fold_carry s) = 0 \<longleftrightarrow> unat s = 0" using fold_carry_unat [of s] by auto
  have f': "unat (fold_carry s') < 65536" "unat (fold_carry s') mod 65535 = unat s' mod 65535"
    "unat (fold_carry s') = 0 \<longleftrightarrow> unat s' = 0" using fold_carry_unat [of s'] by auto
  have cast: "unat (ucast x :: u16) = unat x" if "unat x < 65536" for x :: u32
    using that by (simp add: unsigned_ucast_eq take_bit_nat_eq_self)
  have "unat (NOT (ucast (fold_carry s)) :: u16) = 65535 - unat (fold_carry s)"
    using cast [OF f(1)] by (simp add: unat_NOT_u16)
  then have "unat s' + unat (fold_carry s) = unat s + 65535" using assms f(1) by simp
  then have "unat s' mod 65535 = 0" using f(2) by (rule complement_mod)
  then have "65535 dvd unat (fold_carry s')" using f'(2) by (simp add: dvd_eq_mod_eq_0)
  moreover have "0 < unat (fold_carry s')"
    using \<open>unat s' + unat (fold_carry s) = unat s + 65535\<close> f(1,3) f'(3) by linarith
  ultimately have "65535 \<le> unat (fold_carry s')" by (rule dvd_imp_le)
  then have "unat (fold_carry s') = 65535" using f'(1) by linarith
  then have "unat (ucast (fold_carry s') :: u16) = unat (65535 :: u16)" using cast [OF f'(1)] by simp
  then have "(ucast (fold_carry s') :: u16) = 65535" by (simp only: word_unat_eq_iff)
  then show ?thesis by simp
qed

lemma length_copy4 [simp]: "length (copy4 ip) = 4"
  by (simp add: copy4_def)

lemma nsum_segment:
  assumes "18 \<le> length pkt" "even (length pre)"
  shows "nsum (pre @ (take 16 pkt @ PutUint16 c @ drop 18 pkt) @ pad) =
    nsum (pre @ (take 16 pkt @ PutUint16 0 @ drop 18 pkt) @ pad) + unat c"
proof -
  have "nsum (PutUint16 c @ xs) = unat c + nsum xs" for c xs
    by (simp add: PutUint16_def)
  then show ?thesis
    using assms by (simp add: nsum_append)
qed

theorem parse_panics_iff_witness:
  "ParseTCPHeader [0, 80, 0, 90] (replicate 1036 0) = Panic"
  using parse_panics_iff [of "[0, 80, 0, 90]" "replicate 1036 0"] by simp

text \<open>
  C18. The checksum verifies. Whatever the addresses and the protocol, putting the checksum of a
  segment with a zero checksum field into that field gives a segment whose checksum is zero, for
  every segment an IP packet can carry.
\<close>

theorem checksum_verifies:
  assumes "18 \<le> length pkt" "length pkt \<le> 65535" "take 2 (drop 16 pkt) = [0, 0]"
  shows "computeChecksum src dst protocol
    (take 16 pkt @ PutUint16 (computeChecksum src dst protocol pkt) @ drop 18 pkt) = 0"
proof -
  define c where "c = computeChecksum src dst protocol pkt"
  let ?pre = "copy4 src @ copy4 dst @ [0, protocol] @ PutUint16 (word_of_nat (length pkt))"
  let ?pad = "if odd (length pkt) then [0] else []"
  let ?pkt = "\<lambda>c. take 16 pkt @ PutUint16 c @ drop 18 pkt"
  let ?s = "\<lambda>c. sum16 (?pre @ ?pkt c @ ?pad) 0"
  have "drop 16 pkt = take 2 (drop 16 pkt) @ drop 18 pkt"
    by (metis add_2_eq_Suc' append_take_drop_id drop_drop numeral_plus_numeral semiring_norm(2,3,5,6) add.commute)
  then have pkt: "?pkt 0 = pkt"
    using assms(3) by (simp add: PutUint16_def) (metis append_Cons append_Nil append_take_drop_id)
  have len: "length (?pkt c) = length pkt" for c using assms(1) by simp
  have pre: "length ?pre = 12" by simp
  have unat_s: "unat (?s c) = nsum (?pre @ ?pkt c @ ?pad)" for c
  proof -
    have "length (?pre @ ?pkt c @ ?pad) \<le> 65548" using assms(1,2) by simp
    then have "nsum (?pre @ ?pkt c @ ?pad) < 2 ^ 32" by (rule nsum_small)
    then show ?thesis by (simp add: sum16_nsum)
  qed
  have "unat (?s c) = unat (?s 0) + unat c"
    unfolding unat_s by (rule nsum_segment [OF assms(1)]) (simp add: pre)
  moreover have "c = NOT (ucast (fold_carry (?s 0)))"
    unfolding c_def computeChecksum_def Let_def pkt by (simp only: append_assoc)
  ultimately have "NOT (ucast (fold_carry (?s c))) = (0 :: u16)"
    by (intro fold_carry_complement) simp
  then have "computeChecksum src dst protocol (?pkt c) = 0"
    unfolding computeChecksum_def Let_def len by (simp only: append_assoc)
  then show ?thesis by (simp only: c_def)
qed

theorem checksum_verifies_witness:
  "computeChecksum [10, 0, 0, 1] [10, 0, 0, 2] 6
     (take 16 (serializeTCPPacket example_header [7]) @
      PutUint16 (computeChecksum [10, 0, 0, 1] [10, 0, 0, 2] 6 (serializeTCPPacket example_header [7])) @
      drop 18 (serializeTCPPacket example_header [7])) = 0"
  by (rule checksum_verifies)
     (simp_all add: serializeTCPPacket_def MAX_TCP_PAYLOAD_def PutUint16_def PutUint32_def)

end
