(* ===== verification/TCP_Types.thy ===== *)
theory TCP_Types
  imports TCP_Packet IP_Stack Go_Slice
begin

text \<open>
  The data of the TCP stack (\<open>pkg/tcpstack/types.go\<close>, \<open>constants.go\<close>).
  \<^item> Pointers to sockets are references into the maps \<open>normals\<close> and \<open>listeners\<close> of the stack;
    the table holds them behind the interface type \<open>Socket\<close>, whose \<open>nil\<close> is \<open>NoSocket\<close>.
  \<^item> The connection table is a slice with its backing arrays, because \<open>VFindTableEntry\<close> returns
    pointers into the array and one of them (\<open>handleFIN\<close>) outlives the step: \<open>arrays\<close> holds
    every backing array by generation, \<open>tgen\<close> is the current one, \<open>tlen\<close> the slice length.
  \<^item> The ring buffers are a third-party package: the parameter \<open>rb_ops\<close>, with its documented
    behaviour as \<open>rb_laws\<close>. A call that waits for another goroutine is \<open>Block\<close>.
  \<^item> A \<open>time.Timer\<close> is its deadline, if armed, and whether a tick sits in its channel.
  \<^item> \<open>outbox\<close> records, in order, what was handed to \<open>SendIP\<close> and what came of it;
    \<open>managers\<close> the sockets whose \<open>manageRetransmissions\<close> goroutine runs; \<open>closers\<close> the sleeping
    goroutines of \<open>handleFIN\<close>, each a wake-up time and the pointer it captured.
\<close>

section \<open>Constants\<close>

definition BUFFER_SIZE :: u16 where "BUFFER_SIZE = 65535"
definition RTO_MAX_RETRIES :: int where "RTO_MAX_RETRIES = 3"
definition MIN_RTO :: Duration where "MIN_RTO = 1 * Second"
definition ZWP_RETRIES :: nat where "ZWP_RETRIES = 30"
definition ZWP_PROBE_INTERVAL :: Duration where "ZWP_PROBE_INTERVAL = 1 * Second"
definition MSL :: Duration where "MSL = 4 * Second"
definition HANDSHAKE_TIMEOUT :: Duration where "HANDSHAKE_TIMEOUT = 10 * Second"

section \<open>Connection states\<close>

datatype TCPState = TCP_LISTEN | TCP_SYN_SENT | TCP_SYN_RECEIVED | TCP_ESTABLISHED | TCP_FIN_WAIT_1
  | TCP_FIN_WAIT_2 | TCP_CLOSING | TCP_TIME_WAIT | TCP_CLOSE_WAIT | TCP_LAST_ACK | TCP_CLOSED

fun state_code :: "TCPState \<Rightarrow> int" where
  "state_code TCP_LISTEN = 0"
| "state_code TCP_SYN_SENT = 1"
| "state_code TCP_SYN_RECEIVED = 2"
| "state_code TCP_ESTABLISHED = 3"
| "state_code TCP_FIN_WAIT_1 = 4"
| "state_code TCP_FIN_WAIT_2 = 5"
| "state_code TCP_CLOSING = 6"
| "state_code TCP_TIME_WAIT = 7"
| "state_code TCP_CLOSE_WAIT = 8"
| "state_code TCP_LAST_ACK = 9"
| "state_code TCP_CLOSED = 10"

lemma state_code_inj: "state_code a = state_code b \<Longrightarrow> a = b"
  by (cases a; cases b) simp_all

instantiation TCPState :: linorder
begin

definition less_eq_TCPState :: "TCPState \<Rightarrow> TCPState \<Rightarrow> bool" where
  "less_eq_TCPState a b \<longleftrightarrow> state_code a \<le> state_code b"

definition less_TCPState :: "TCPState \<Rightarrow> TCPState \<Rightarrow> bool" where
  "less_TCPState a b \<longleftrightarrow> state_code a < state_code b"

instance
  by standard (auto simp: less_eq_TCPState_def less_TCPState_def intro: state_code_inj)

end

section \<open>Ring buffers\<close>

datatype rb_error = ErrIsFull | ErrTooMuchDataToWrite | ErrIsEmpty | OtherError string

record 'rb rb_ops =
  rb_New :: "nat \<Rightarrow> 'rb"
  rb_SetBlocking :: "'rb \<Rightarrow> bool \<Rightarrow> 'rb"
  rb_Write :: "'rb \<Rightarrow> byte list \<Rightarrow> (nat \<times> rb_error option \<times> 'rb) go"
  rb_TryWrite :: "'rb \<Rightarrow> byte list \<Rightarrow> nat \<times> rb_error option \<times> 'rb"
  rb_Read :: "'rb \<Rightarrow> nat \<Rightarrow> (byte list \<times> rb_error option \<times> 'rb) go"
  rb_TryRead :: "'rb \<Rightarrow> nat \<Rightarrow> byte list \<times> rb_error option \<times> 'rb"
  rb_Length :: "'rb \<Rightarrow> nat"
  rb_Free :: "'rb \<Rightarrow> nat"

text \<open>
  The documented behaviour, relative to a reading \<open>content\<close> of a buffer as a byte queue and its
  capacity \<open>cap\<close>. \<open>good\<close> marks buffers in blocking mode. A blocking write of more than fits waits; a
  blocking read of an empty buffer waits; a read takes what is there, up to the length asked for, and a
  read of no bytes returns at once.
\<close>

definition rb_laws :: "'rb rb_ops \<Rightarrow> ('rb \<Rightarrow> bool) \<Rightarrow> ('rb \<Rightarrow> byte list) \<Rightarrow> ('rb \<Rightarrow> nat) \<Rightarrow> bool" where
  "rb_laws ops good content cap \<longleftrightarrow>
     (\<forall>n. let b = rb_SetBlocking ops (rb_New ops n) True in good b \<and> content b = [] \<and> cap b = n) \<and>
     (\<forall>b. good b \<longrightarrow> length (content b) \<le> cap b \<and> rb_Length ops b = length (content b) \<and>
        rb_Free ops b = cap b - length (content b)) \<and>
     (\<forall>b bs. good b \<longrightarrow> (if length bs \<le> cap b - length (content b)
        then \<exists>b'. rb_Write ops b bs = Ret (length bs, None, b') \<and> good b' \<and>
               content b' = content b @ bs \<and> cap b' = cap b
        else rb_Write ops b bs = Block)) \<and>
     (\<forall>b bs. good b \<longrightarrow> (\<exists>n err b'. rb_TryWrite ops b bs = (n, err, b') \<and> good b' \<and>
        n = min (length bs) (cap b - length (content b)) \<and>
        content b' = content b @ take n bs \<and> cap b' = cap b \<and>
        err = (if n = length bs then None else if n = 0 then Some ErrIsFull else Some ErrTooMuchDataToWrite))) \<and>
     (\<forall>b n. good b \<longrightarrow> 0 < n \<longrightarrow> (if content b = [] then rb_Read ops b n = Block
        else \<exists>b'. rb_Read ops b n = Ret (take n (content b), None, b') \<and> good b' \<and>
               content b' = drop n (content b) \<and> cap b' = cap b)) \<and>
     (\<forall>b. good b \<longrightarrow> rb_Read ops b 0 = Ret ([], None, b)) \<and>
     (\<forall>b n. good b \<longrightarrow> 0 < n \<longrightarrow> (\<exists>b'. rb_TryRead ops b n = (take n (content b),
        if content b = [] then Some ErrIsEmpty else None, b') \<and> good b' \<and>
        content b' = drop n (content b) \<and> cap b' = cap b))"

section \<open>Sockets\<close>

record Timer =
  deadline :: "Time option"
  pending :: bool

record EarlyData =
  ed_data :: "byte list"
  ed_SeqNum :: u32
  ed_Length :: u16

record InFlightPacket =
  if_data :: "byte list"
  if_SeqNum :: u32
  if_Length :: u16
  timeSent :: Time
  if_flags :: u8
  windowFlags :: u16

record 'rb SND =
  snd_buf :: 'rb
  UNA :: u32
  snd_NXT :: u32
  snd_WND :: u16
  ISS :: u32
  calculatedRTO :: Duration
  RTOtimer :: Timer
  SRTT :: Duration
  RTTVAR :: Duration
  retransmissions :: int
  inFlightPackets :: "InFlightPacket list"

record 'rb RCV =
  rcv_buf :: 'rb
  rcv_WND :: u16
  rcv_NXT :: u32
  IRS :: u32
  earlyData :: "EarlyData list"

record 'rb NormalSocket =
  SID :: int
  ns_LocalAddress :: Addr
  ns_LocalPort :: u16
  ns_RemoteAddress :: Addr
  ns_RemotePort :: u16
  ns_SeqNum :: u32
  ns_AckNum :: u32
  so_snd :: "'rb SND"
  so_rcv :: "'rb RCV"
  lastActive :: Time
  establishedChan :: bool

record ListenSocket =
  ls_SID :: int
  ls_localPort :: u16
  acceptQueue :: "nat list"

datatype Socket = NoSocket | NormalRef nat | ListenRef nat

record TCPTableEntry =
  LocalAddress :: Addr
  LocalPort :: u16
  RemoteAddress :: Addr
  RemotePort :: u16
  State :: TCPState
  SocketStruct :: Socket

type_synonym entry_ptr = "nat \<times> nat"

record 'rb TCPStack =
  arrays :: "nat \<Rightarrow> TCPTableEntry list"
  tgen :: nat
  tlen :: nat
  nextPort :: u16
  nextSID :: int
  ipStack :: IPStack
  normals :: "nat \<rightharpoonup> 'rb NormalSocket"
  listeners :: "nat \<rightharpoonup> ListenSocket"
  nextRef :: nat
  managers :: "nat list"
  closers :: "(Time \<times> entry_ptr) list"
  outbox :: "(Addr \<times> byte list \<times> (string + ip_effect)) list"

text \<open>
  What a step needs from outside: the header library, the orders in which maps are visited, the
  ring buffer package, the capacity \<open>append\<close> allocates when it grows an array, and the clock.
\<close>

record 'rb tcp_env =
  e_lib :: ip_lib
  e_ord1 :: order
  e_ord2 :: order
  e_rb :: "'rb rb_ops"
  e_grow :: "nat \<Rightarrow> nat"
  e_now :: Time

definition unix_epoch :: Time where "unix_epoch = 62135596800 * Second"

definition socket_of :: "'rb TCPStack \<Rightarrow> nat \<Rightarrow> 'rb NormalSocket go" where
  "socket_of ts r = (case normals ts r of None \<Rightarrow> Panic | Some s \<Rightarrow> Ret s)"

definition put_socket :: "nat \<Rightarrow> 'rb NormalSocket \<Rightarrow> 'rb TCPStack \<Rightarrow> 'rb TCPStack" where
  "put_socket r s ts = ts\<lparr>normals := (normals ts)(r \<mapsto> s)\<rparr>"

section \<open>Timers\<close>

definition NewTimer :: "Time \<Rightarrow> Duration \<Rightarrow> Timer" where
  "NewTimer t d = \<lparr>deadline = Some (t + d), pending = False\<rparr>"

definition timer_Stop :: "Timer \<Rightarrow> Timer" where
  "timer_Stop tm = tm\<lparr>deadline := None\<rparr>"

definition timer_Reset :: "Time \<Rightarrow> Duration \<Rightarrow> Timer \<Rightarrow> Timer" where
  "timer_Reset t d tm = tm\<lparr>deadline := Some (t + d)\<rparr>"

definition reset_rto :: "Time \<Rightarrow> 'rb SND \<Rightarrow> 'rb SND" where
  "reset_rto t s = s\<lparr>RTOtimer := timer_Reset t (calculatedRTO s) (RTOtimer s)\<rparr>"

definition stop_rto :: "'rb SND \<Rightarrow> 'rb SND" where
  "stop_rto s = s\<lparr>RTOtimer := timer_Stop (RTOtimer s)\<rparr>"

end
