(* ===== verification/TCP_Table.thy ===== *)
theory TCP_Table
  imports TCP_Types
begin

text \<open>
  The stack object and its connection table (\<open>pkg/tcpstack/tcpstack.go\<close>): identifiers, ports,
  insertion, lookup by pointer and deletion in the shared array, and handing a segment to IP.
  The mutex makes every operation atomic.
\<close>

section \<open>The table as a slice\<close>

definition tbl :: "'rb TCPStack \<Rightarrow> TCPTableEntry slice" where
  "tbl ts = \<lparr>arr = arrays ts (tgen ts), slen = tlen ts\<rparr>"

definition table_entries :: "'rb TCPStack \<Rightarrow> TCPTableEntry list" where
  "table_entries ts = live (tbl ts)"

definition set_tbl :: "TCPTableEntry slice \<Rightarrow> 'rb TCPStack \<Rightarrow> 'rb TCPStack" where
  "set_tbl sl ts = ts\<lparr>arrays := (arrays ts)(tgen ts := arr sl), tlen := slen sl\<rparr>"

text \<open>Reading and assigning through a pointer into a backing array.\<close>

definition deref :: "'rb TCPStack \<Rightarrow> entry_ptr \<Rightarrow> TCPTableEntry" where
  "deref ts p = (case p of (g, i) \<Rightarrow> arrays ts g ! i)"

definition set_State :: "entry_ptr \<Rightarrow> TCPState \<Rightarrow> 'rb TCPStack \<Rightarrow> 'rb TCPStack" where
  "set_State p st ts = (case p of (g, i) \<Rightarrow>
     ts\<lparr>arrays := (arrays ts)(g := (arrays ts g)[i := (arrays ts g ! i)\<lparr>State := st\<rparr>])\<rparr>)"

definition zero_entry :: TCPTableEntry where
  "zero_entry = \<lparr>LocalAddress = NoAddr, LocalPort = 0, RemoteAddress = NoAddr, RemotePort = 0,
     State = TCP_LISTEN, SocketStruct = NoSocket\<rparr>"

section \<open>Operations\<close>

definition InitTCPStack :: "IPStack \<Rightarrow> 'rb TCPStack" where
  "InitTCPStack ipst = \<lparr>arrays = (\<lambda>_. []), tgen = 0, tlen = 0, nextPort = 49152, nextSID = 0,
     ipStack = ipst, normals = Map.empty, listeners = Map.empty, nextRef = 0, managers = [],
     closers = [], outbox = []\<rparr>"

definition generateSID :: "'rb TCPStack \<Rightarrow> int \<times> 'rb TCPStack" where
  "generateSID ts = (nextSID ts, ts\<lparr>nextSID := nextSID ts + 1\<rparr>)"

text \<open>\<open>SocketStruct.GetSID()\<close>; a call on a \<open>nil\<close> interface panics.\<close>

definition GetSID :: "'rb TCPStack \<Rightarrow> Socket \<Rightarrow> int go" where
  "GetSID ts s = (case s of
     NoSocket \<Rightarrow> Panic
   | NormalRef r \<Rightarrow> mapG SID (socket_of ts r)
   | ListenRef r \<Rightarrow> (case listeners ts r of None \<Rightarrow> Panic | Some l \<Rightarrow> Ret (ls_SID l)))"

fun find_socket :: "'rb TCPStack \<Rightarrow> int \<Rightarrow> TCPTableEntry list \<Rightarrow> Socket go" where
  "find_socket ts sid [] = Ret NoSocket"
| "find_socket ts sid (e # es) =
     bindG (GetSID ts (SocketStruct e)) (\<lambda>k.
       if k = sid then Ret (SocketStruct e) else find_socket ts sid es)"

definition getSocketByID :: "'rb TCPStack \<Rightarrow> int \<Rightarrow> Socket go" where
  "getSocketByID ts sid = find_socket ts sid (table_entries ts)"

text \<open>\<open>append\<close> writes into spare capacity, or copies to a larger array.\<close>

definition append_entry :: "'rb tcp_env \<Rightarrow> TCPTableEntry \<Rightarrow> 'rb TCPStack \<Rightarrow> 'rb TCPStack" where
  "append_entry env entry ts =
     (let a = arrays ts (tgen ts); n = tlen ts
      in if n < length a
         then ts\<lparr>arrays := (arrays ts)(tgen ts := a[n := entry]), tlen := n + 1\<rparr>
         else ts\<lparr>arrays := (arrays ts)(tgen ts + 1 :=
                    take n a @ [entry] @ replicate (e_grow env n - (n + 1)) zero_entry),
                 tgen := tgen ts + 1, tlen := n + 1\<rparr>)"

definition VInsertTableEntry :: "'rb tcp_env \<Rightarrow> TCPTableEntry \<Rightarrow> 'rb TCPStack \<Rightarrow> 'rb TCPStack" where
  "VInsertTableEntry env entry ts =
     (let ts = append_entry env entry ts
      in case SocketStruct entry of
           NormalRef r \<Rightarrow> ts\<lparr>managers := managers ts @ [r]\<rparr>
         | _ \<Rightarrow> ts)"

text \<open>The loop ranges over the slice it had at the start and does not stop at a match.\<close>

definition delete_visit :: "TCPTableEntry \<Rightarrow> nat \<Rightarrow> TCPTableEntry slice \<Rightarrow> TCPTableEntry slice go" where
  "delete_visit entry i sl =
     (let e = arr sl ! i
      in if e = entry then (if i + 1 \<le> slen sl then Ret (slice_delete i sl) else Panic) else Ret sl)"

fun delete_loop :: "TCPTableEntry \<Rightarrow> nat list \<Rightarrow> TCPTableEntry slice \<Rightarrow> TCPTableEntry slice go" where
  "delete_loop entry [] sl = Ret sl"
| "delete_loop entry (i # is) sl = bindG (delete_visit entry i sl) (delete_loop entry is)"

definition VDeleteTableEntry :: "TCPTableEntry \<Rightarrow> 'rb TCPStack \<Rightarrow> 'rb TCPStack go" where
  "VDeleteTableEntry entry ts =
     mapG (\<lambda>sl. set_tbl sl ts) (delete_loop entry [0..<tlen ts] (tbl ts))"

definition VFindTableEntry :: "'rb TCPStack \<Rightarrow> Addr \<Rightarrow> u16 \<Rightarrow> Addr \<Rightarrow> u16 \<Rightarrow> entry_ptr option" where
  "VFindTableEntry ts localAddress localPort remoteAddress remotePort =
     (case find_index (\<lambda>e. LocalPort e = localPort \<and> RemoteAddress e = remoteAddress \<and>
             RemotePort e = remotePort) (table_entries ts) of
        Some i \<Rightarrow> Some (tgen ts, i)
      | None \<Rightarrow>
          (case find_index (\<lambda>e. LocalPort e = localPort \<and> State e = TCP_LISTEN) (table_entries ts) of
             Some i \<Rightarrow> Some (tgen ts, i)
           | None \<Rightarrow> None))"

text \<open>The error, if any, and the stack with the hand-over recorded.\<close>

definition sendPacket ::
  "'rb tcp_env \<Rightarrow> Addr \<Rightarrow> byte list \<Rightarrow> 'rb TCPStack \<Rightarrow> (string option \<times> 'rb TCPStack) go" where
  "sendPacket env dstAddr data ts =
     mapG (\<lambda>r. (case r of Inl err \<Rightarrow> Some err | Inr _ \<Rightarrow> None,
                ts\<lparr>outbox := outbox ts @ [(dstAddr, data, r)]\<rparr>))
       (SendIP (e_lib env) (e_ord1 env) (e_ord2 env) (ipStack ts) dstAddr TCP_PROTOCOL 16 data)"

definition allocatePort :: "'rb TCPStack \<Rightarrow> u16 \<times> 'rb TCPStack" where
  "allocatePort ts =
     (let port = nextPort ts;
          next = nextPort ts + 1
      in (port, ts\<lparr>nextPort := if next = 0 then 49152 else next\<rparr>))"

section \<open>Lemmas\<close>

definition growing :: "'rb tcp_env \<Rightarrow> bool" where
  "growing env \<longleftrightarrow> (\<forall>n. n < e_grow env n)"

definition table_wf :: "'rb TCPStack \<Rightarrow> bool" where
  "table_wf ts \<longleftrightarrow> slice_ok (tbl ts) \<and> distinct (map SocketStruct (table_entries ts))"

lemma length_table_entries: "slice_ok (tbl ts) \<Longrightarrow> length (table_entries ts) = tlen ts"
  by (simp add: table_entries_def length_live) (simp add: tbl_def)

lemma table_entries_nth: "slice_ok (tbl ts) \<Longrightarrow> i < tlen ts \<Longrightarrow> table_entries ts ! i = deref ts (tgen ts, i)"
  by (simp add: table_entries_def live_def tbl_def slice_ok_def deref_def)

lemma append_entry_table:
  assumes "slice_ok (tbl ts)" "growing env"
  shows "table_entries (append_entry env e ts) = table_entries ts @ [e]" "slice_ok (tbl (append_entry env e ts))"
proof -
  let ?a = "arrays ts (tgen ts)"
  have n: "tlen ts \<le> length ?a" using assms(1) by (simp add: slice_ok_def tbl_def)
  show "table_entries (append_entry env e ts) = table_entries ts @ [e]"
    using n by (auto simp: append_entry_def table_entries_def tbl_def live_def Let_def take_Suc_conv_app_nth)
  show "slice_ok (tbl (append_entry env e ts))"
    using n by (auto simp: append_entry_def tbl_def slice_ok_def Let_def)
qed

lemma VInsertTableEntry_table:
  assumes "slice_ok (tbl ts)" "growing env"
  shows "table_entries (VInsertTableEntry env e ts) = table_entries ts @ [e]"
    "slice_ok (tbl (VInsertTableEntry env e ts))"
proof -
  have "tbl (VInsertTableEntry env e ts) = tbl (append_entry env e ts)"
    by (simp add: VInsertTableEntry_def Let_def tbl_def split: Socket.split)
  then show "table_entries (VInsertTableEntry env e ts) = table_entries ts @ [e]"
    "slice_ok (tbl (VInsertTableEntry env e ts))"
    using append_entry_table [OF assms] by (simp_all add: table_entries_def)
qed

lemma set_State_table:
  assumes "slice_ok (tbl ts)" "i < tlen ts"
  shows "table_entries (set_State (tgen ts, i) st ts) =
      (table_entries ts)[i := (table_entries ts ! i)\<lparr>State := st\<rparr>]"
    "slice_ok (tbl (set_State (tgen ts, i) st ts))"
  using assms
  by (simp_all add: set_State_def table_entries_def tbl_def live_def slice_ok_def take_update_swap)

lemma VFind_Some:
  assumes "slice_ok (tbl ts)" "VFindTableEntry ts la lp ra rp = Some p"
  shows "\<exists>i < tlen ts. p = (tgen ts, i) \<and> LocalPort (deref ts p) = lp \<and>
    (RemoteAddress (deref ts p) = ra \<and> RemotePort (deref ts p) = rp \<or> State (deref ts p) = TCP_LISTEN)"
  using assms
  by (auto simp: VFindTableEntry_def length_table_entries table_entries_nth split: option.splits
      dest!: find_index_Some)

end
