(* ===== verification/TCP_Example.thy ===== *)
theory TCP_Example
  imports TCP_Table IP_Props
begin

text \<open>
  A concrete instance for the witnesses of the TCP theories: a ring buffer that is a byte list
  with a capacity, an environment, and a host with one listener and one established connection.
\<close>

type_synonym list_rb = "byte list \<times> nat"

definition list_rb :: "list_rb rb_ops" where
  "list_rb = \<lparr>rb_New = (\<lambda>n. ([], n)),
     rb_SetBlocking = (\<lambda>b _. b),
     rb_Write = (\<lambda>(c, n) bs. if length bs \<le> n - length c then Ret (length bs, None, (c @ bs, n)) else Block),
     rb_TryWrite = (\<lambda>(c, n) bs. let k = min (length bs) (n - length c) in
       (k, if k = length bs then None else if k = 0 then Some ErrIsFull else Some ErrTooMuchDataToWrite,
        (c @ take k bs, n))),
     rb_Read = (\<lambda>(c, n) k. if k = 0 then Ret ([], None, (c, n)) else if c = [] then Block else Ret (take k c, None, (drop k c, n))),
     rb_TryRead = (\<lambda>(c, n) k. (take k c, if c = [] then Some ErrIsEmpty else None, (drop k c, n))),
     rb_Length = (\<lambda>(c, n). length c),
     rb_Free = (\<lambda>(c, n). n - length c)\<rparr>"

definition list_rb_good :: "list_rb \<Rightarrow> bool" where
  "list_rb_good b \<longleftrightarrow> length (fst b) \<le> snd b"

lemma list_rb_laws: "rb_laws list_rb list_rb_good fst snd"
  unfolding rb_laws_def list_rb_def list_rb_good_def by (auto simp: Let_def min_def)

definition ex_env :: "list_rb tcp_env" where
  "ex_env = \<lparr>e_lib = ex_total_lib, e_ord1 = [''if0''], e_ord2 = [''if0''], e_rb = list_rb,
     e_grow = (\<lambda>n. 2 * n + 1), e_now = 1000 * Second\<rparr>"

definition ex_snd :: "list_rb SND" where
  "ex_snd = \<lparr>snd_buf = ([], 65535), UNA = 1001, snd_NXT = 1001, snd_WND = 65535, ISS = 1000,
     calculatedRTO = MIN_RTO, RTOtimer = \<lparr>deadline = None, pending = False\<rparr>, SRTT = 0, RTTVAR = 0,
     retransmissions = 0, inFlightPackets = []\<rparr>"

definition ex_rcv :: "list_rb RCV" where
  "ex_rcv = \<lparr>rcv_buf = ([], 65535), rcv_WND = 65535, rcv_NXT = 5001, IRS = 5000, earlyData = []\<rparr>"

definition ex_socket :: "list_rb NormalSocket" where
  "ex_socket = \<lparr>SID = 1, ns_LocalAddress = IPv4 0x0a000001, ns_LocalPort = 49152,
     ns_RemoteAddress = IPv4 0x0a000002, ns_RemotePort = 80, ns_SeqNum = 1000, ns_AckNum = 5001,
     so_snd = ex_snd, so_rcv = ex_rcv, lastActive = 0, establishedChan = False\<rparr>"

definition ex_listener :: TCPTableEntry where
  "ex_listener = \<lparr>LocalAddress = IPv4 0, LocalPort = 9999, RemoteAddress = IPv4 0, RemotePort = 0,
     State = TCP_LISTEN, SocketStruct = ListenRef 0\<rparr>"

definition ex_conn :: "TCPState \<Rightarrow> TCPTableEntry" where
  "ex_conn st = \<lparr>LocalAddress = IPv4 0x0a000001, LocalPort = 49152, RemoteAddress = IPv4 0x0a000002,
     RemotePort = 80, State = st, SocketStruct = NormalRef 1\<rparr>"

definition ex_host :: "TCPState \<Rightarrow> list_rb TCPStack" where
  "ex_host st = \<lparr>arrays = (\<lambda>_. [ex_listener, ex_conn st]), tgen = 0, tlen = 2, nextPort = 49153,
     nextSID = 2, ipStack = ex_stack, normals = [1 \<mapsto> ex_socket],
     listeners = [0 \<mapsto> \<lparr>ls_SID = 0, ls_localPort = 9999, acceptQueue = []\<rparr>], nextRef = 2,
     managers = [1], closers = [], outbox = []\<rparr>"

lemma ex_env_growing: "growing ex_env"
  by (simp add: growing_def ex_env_def)

lemma ex_env_simps [simp]: "e_lib ex_env = ex_total_lib" "e_rb ex_env = list_rb"
  "e_now ex_env = 1000 * Second" "e_ord1 ex_env = [''if0'']" "e_ord2 ex_env = [''if0'']"
  by (simp_all add: ex_env_def)

lemma ex_host_simps [simp]: "tgen (ex_host st) = 0" "tlen (ex_host st) = 2"
  "arrays (ex_host st) = (\<lambda>_. [ex_listener, ex_conn st])" "ipStack (ex_host st) = ex_stack"
  "nextPort (ex_host st) = 49153" "nextSID (ex_host st) = 2" "normals (ex_host st) = [1 \<mapsto> ex_socket]"
  "listeners (ex_host st) = [0 \<mapsto> \<lparr>ls_SID = 0, ls_localPort = 9999, acceptQueue = []\<rparr>]"
  "nextRef (ex_host st) = 2" "managers (ex_host st) = [1]" "closers (ex_host st) = []" "outbox (ex_host st) = []"
  by (simp_all add: ex_host_def)

lemma ex_host_table: "table_entries (ex_host st) = [ex_listener, ex_conn st]"
  "slice_ok (tbl (ex_host st))" "table_wf (ex_host st)"
  by (simp_all add: table_entries_def tbl_def live_def slice_ok_def table_wf_def ex_listener_def ex_conn_def)

end
