(* ===== verification/TCP_Table_Props.thy ===== *)
theory TCP_Table_Props
  imports TCP_Example
begin

text \<open>
  What the connection table guarantees: deletion in the shared array removes exactly the given
  entry, lookup finds what was inserted, and ephemeral ports stay in their range.
\<close>

section \<open>Deletion\<close>

lemma delete_loop_skip: "\<forall>i \<in> set is. arr sl ! i \<noteq> e \<Longrightarrow> delete_loop e is sl = Ret sl"
  by (induction "is") (simp_all add: delete_visit_def)

lemma delete_loop_append:
  "delete_loop e (is @ js) sl = bindG (delete_loop e is sl) (delete_loop e js)"
proof (induction "is" arbitrary: sl)
  case (Cons i "is")
  then show ?case by (cases "delete_visit e i sl") simp_all
qed simp

lemma delete_loop_hit:
  assumes ok: "slice_ok sl" and d: "distinct (live sl)" and k: "k < slen sl" "arr sl ! k = e"
  shows "delete_loop e [0..<slen sl] sl = Ret (slice_delete k sl)"
proof -
  have nth: "live sl ! i = arr sl ! i" if "i < slen sl" for i using that by (simp add: live_def)
  have uniq: "arr sl ! i \<noteq> e" if "i < slen sl" "i \<noteq> k" for i
    using d that k nth nth_eq_iff_index_eq [OF d, of i k] by (simp add: length_live [OF ok])
  have "[0..<slen sl] = [0..<k] @ k # [Suc k..<slen sl]"
    using k(1) upt_add_eq_append [of 0 k "slen sl - k"] by (simp add: upt_conv_Cons)
  moreover have "delete_loop e [0..<k] sl = Ret sl"
    by (rule delete_loop_skip) (use uniq k(1) in auto)
  moreover have "delete_visit e k sl = Ret (slice_delete k sl)"
    using k by (simp add: delete_visit_def)
  moreover have "delete_loop e [Suc k..<slen sl] (slice_delete k sl) = Ret (slice_delete k sl)"
  proof (rule delete_loop_skip, rule ballI)
    fix i assume "i \<in> set [Suc k..<slen sl]"
    then have i: "k < i" "i < slen sl" by auto
    then have "(if i + 1 < slen sl then i + 1 else slen sl - 1) < slen sl \<and>
        (if i + 1 < slen sl then i + 1 else slen sl - 1) \<noteq> k" by auto
    with uniq show "arr (slice_delete k sl) ! i \<noteq> e"
      using arr_slice_delete_high [OF ok, of k i] i by (simp only: less_imp_le) blast
  qed
  ultimately show ?thesis by (simp add: delete_loop_append)
qed

lemma distinct_filter_neq:
  "distinct xs \<Longrightarrow> k < length xs \<Longrightarrow> filter (\<lambda>x. x \<noteq> xs ! k) xs = take k xs @ drop (Suc k) xs"
proof -
  assume d: "distinct xs" and k: "k < length xs"
  have xs: "xs = take k xs @ xs ! k # drop (Suc k) xs" using k by (simp add: take_nth_drop_Suc)
  then have "xs ! k \<notin> set (take k xs) \<union> set (drop (Suc k) xs)"
    using d by (metis Un_iff distinct_append distinct.simps(2) disjoint_iff list.set_intros(1))
  then have "filter (\<lambda>x. x \<noteq> xs ! k) (take k xs) = take k xs"
    "filter (\<lambda>x. x \<noteq> xs ! k) (drop (Suc k) xs) = drop (Suc k) xs"
    by (metis (mono_tags, lifting) UnCI filter_True)+
  then have "filter (\<lambda>x. x \<noteq> xs ! k) (take k xs @ xs ! k # drop (Suc k) xs) = take k xs @ drop (Suc k) xs"
    by simp
  with xs show ?thesis by metis
qed

lemma set_tbl_entries [simp]: "table_entries (set_tbl sl ts) = live sl" "tbl (set_tbl sl ts) = sl"
  by (cases sl; simp add: table_entries_def tbl_def set_tbl_def)+

lemma table_wf_distinct: "table_wf ts \<Longrightarrow> distinct (table_entries ts)"
  by (simp add: table_wf_def distinct_map)

lemma VDelete_ex:
  assumes wf: "table_wf ts"
  shows "\<exists>sl. VDeleteTableEntry e ts = Ret (set_tbl sl ts) \<and> slice_ok sl \<and>
    live sl = filter (\<lambda>x. x \<noteq> e) (table_entries ts)"
proof -
  have ok: "slice_ok (tbl ts)" and d: "distinct (live (tbl ts))"
    using wf table_wf_distinct [OF wf] by (auto simp: table_wf_def table_entries_def)
  have n: "slen (tbl ts) = tlen ts" by (simp add: tbl_def)
  show ?thesis
  proof (cases "e \<in> set (table_entries ts)")
    case True
    then obtain k where k: "k < tlen ts" "live (tbl ts) ! k = e"
      using ok by (auto simp: in_set_conv_nth length_live n table_entries_def)
    then have a: "arr (tbl ts) ! k = e" by (simp add: live_def n)
    have "filter (\<lambda>x. x \<noteq> e) (live (tbl ts)) = live (slice_delete k (tbl ts))"
      using distinct_filter_neq [OF d, of k] k ok by (simp add: live_slice_delete length_live n)
    with delete_loop_hit [OF ok d _ a] k(1) show ?thesis
      by (intro exI [of _ "slice_delete k (tbl ts)"])
         (simp add: VDeleteTableEntry_def n slice_ok_delete ok table_entries_def)
  next
    case False
    then have "\<forall>i \<in> set [0..<tlen ts]. arr (tbl ts) ! i \<noteq> e"
      using ok by (auto simp: in_set_conv_nth table_entries_def live_def length_live n slice_ok_def)
    moreover have "filter (\<lambda>x. x \<noteq> e) (table_entries ts) = table_entries ts"
      using False by (intro filter_True) auto
    ultimately show ?thesis
      by (intro exI [of _ "tbl ts"]) (simp add: VDeleteTableEntry_def delete_loop_skip ok table_entries_def)
  qed
qed

text \<open>
  C19. Deletion. On a table whose entries have pairwise different sockets, \<open>VDeleteTableEntry\<close>
  does not panic, removes exactly the entry equal to its argument, keeps the order of the others
  and changes nothing outside the table.
\<close>

theorem delete_removes:
  assumes "table_wf ts"
  shows "\<exists>sl :: TCPTableEntry slice. VDeleteTableEntry e ts =
      Ret (ts\<lparr>arrays := (arrays ts)(tgen ts := arr sl), tlen := slen sl\<rparr>) \<and>
    table_wf (ts\<lparr>arrays := (arrays ts)(tgen ts := arr sl), tlen := slen sl\<rparr>) \<and>
    table_entries (ts\<lparr>arrays := (arrays ts)(tgen ts := arr sl), tlen := slen sl\<rparr>) =
      filter (\<lambda>x. x \<noteq> e) (table_entries ts)"
proof -
  obtain sl where sl: "VDeleteTableEntry e ts = Ret (set_tbl sl ts)" "slice_ok sl"
    "live sl = filter (\<lambda>x. x \<noteq> e) (table_entries ts)" using VDelete_ex [OF assms] by blast
  have "table_wf (set_tbl sl ts)"
    using assms sl by (simp add: table_wf_def distinct_map_filter)
  moreover have "table_entries (set_tbl sl ts) = filter (\<lambda>x. x \<noteq> e) (table_entries ts)"
    using sl(3) by simp
  ultimately show ?thesis using sl(1) unfolding set_tbl_def by blast
qed

theorem delete_removes_witness:
  "\<exists>ts. VDeleteTableEntry ex_listener (ex_host TCP_ESTABLISHED) = Ret ts \<and>
     table_entries ts = [ex_conn TCP_ESTABLISHED]"
  using delete_removes [OF ex_host_table(3), of ex_listener TCP_ESTABLISHED]
  by (auto simp: ex_host_table ex_listener_def ex_conn_def)

section \<open>Lookup\<close>

lemma find_index_append:
  "find_index P (xs @ ys) =
     (case find_index P xs of Some i \<Rightarrow> Some i | None \<Rightarrow> map_option ((+) (length xs)) (find_index P ys))"
  by (induction xs) (cases "find_index P ys"; auto split: option.split)+

text \<open>
  C20. Lookup. What \<open>VFindTableEntry\<close> returns points at an entry with the port asked for, a
  connection to the remote address and port if the table has one and a listener otherwise; and a
  connection whose remote end the table did not have on that port is found after its insertion.
\<close>

theorem find_after_insert:
  assumes "slice_ok (tbl ts)" "growing env"
  shows "(\<forall>la lp ra rp p. VFindTableEntry ts la lp ra rp = Some p \<longrightarrow>
      deref ts p \<in> set (table_entries ts) \<and> LocalPort (deref ts p) = lp \<and>
      (if \<exists>e \<in> set (table_entries ts). LocalPort e = lp \<and> RemoteAddress e = ra \<and> RemotePort e = rp
       then RemoteAddress (deref ts p) = ra \<and> RemotePort (deref ts p) = rp
       else State (deref ts p) = TCP_LISTEN)) \<and>
    ((\<forall>x \<in> set (table_entries ts). \<not> (LocalPort x = LocalPort e \<and> RemoteAddress x = RemoteAddress e \<and>
        RemotePort x = RemotePort e)) \<longrightarrow>
     (\<exists>p. VFindTableEntry (VInsertTableEntry env e ts) la (LocalPort e) (RemoteAddress e) (RemotePort e) = Some p \<and>
        deref (VInsertTableEntry env e ts) p = e))"
proof (intro conjI allI impI)
  fix la lp ra rp p
  let ?P = "\<lambda>e. LocalPort e = lp \<and> RemoteAddress e = ra \<and> RemotePort e = rp"
  assume f: "VFindTableEntry ts la lp ra rp = Some p"
  obtain i where i: "i < tlen ts" "p = (tgen ts, i)" "LocalPort (deref ts p) = lp"
    using VFind_Some [OF assms(1) f] by blast
  have d: "deref ts p = table_entries ts ! i" using table_entries_nth [OF assms(1) i(1)] i(2) by simp
  then show "deref ts p \<in> set (table_entries ts)" using i(1) length_table_entries [OF assms(1)] by simp
  show "LocalPort (deref ts p) = lp" by (rule i(3))
  show "if \<exists>e \<in> set (table_entries ts). ?P e then RemoteAddress (deref ts p) = ra \<and> RemotePort (deref ts p) = rp
        else State (deref ts p) = TCP_LISTEN"
    using f d i(2) find_index_None [of ?P "table_entries ts"]
    by (auto simp: VFindTableEntry_def split: option.splits dest!: find_index_Some)
next
  let ?P = "\<lambda>x. LocalPort x = LocalPort e \<and> RemoteAddress x = RemoteAddress e \<and> RemotePort x = RemotePort e"
  let ?ts = "VInsertTableEntry env e ts"
  note ins = VInsertTableEntry_table [OF assms, of e]
  assume "\<forall>x \<in> set (table_entries ts). \<not> ?P x"
  then have "find_index ?P (table_entries ?ts) = Some (tlen ts)"
    using find_index_None [of ?P "table_entries ts"] length_table_entries [OF assms(1)]
    by (simp add: ins find_index_append)
  then have f: "VFindTableEntry ?ts la (LocalPort e) (RemoteAddress e) (RemotePort e) = Some (tgen ?ts, tlen ts)"
    by (simp add: VFindTableEntry_def)
  have "tlen ?ts = tlen ts + 1"
    using length_table_entries [OF ins(2)] length_table_entries [OF assms(1)] ins(1) by simp
  then have "deref ?ts (tgen ?ts, tlen ts) = e"
    using table_entries_nth [OF ins(2), of "tlen ts"] ins(1) length_table_entries [OF assms(1)]
    by (simp add: nth_append)
  with f show "\<exists>p. VFindTableEntry ?ts la (LocalPort e) (RemoteAddress e) (RemotePort e) = Some p \<and>
      deref ?ts p = e" by blast
qed

theorem find_after_insert_witness:
  "\<exists>p. VFindTableEntry (VInsertTableEntry ex_env (ex_conn TCP_SYN_SENT\<lparr>LocalPort := 49153\<rparr>) (ex_host TCP_ESTABLISHED))
      (IPv4 0) 49153 (IPv4 0x0a000002) 80 = Some p \<and>
    deref (VInsertTableEntry ex_env (ex_conn TCP_SYN_SENT\<lparr>LocalPort := 49153\<rparr>) (ex_host TCP_ESTABLISHED)) p =
      ex_conn TCP_SYN_SENT\<lparr>LocalPort := 49153\<rparr>"
  using conjunct2 [OF find_after_insert [OF ex_host_table(2) ex_env_growing,
    of TCP_ESTABLISHED "ex_conn TCP_SYN_SENT\<lparr>LocalPort := 49153\<rparr>" "IPv4 0"]]
  by (simp add: ex_host_table ex_listener_def ex_conn_def)

section \<open>Ephemeral ports\<close>

fun allocate_ports :: "nat \<Rightarrow> 'rb TCPStack \<Rightarrow> u16 list" where
  "allocate_ports 0 ts = []"
| "allocate_ports (Suc k) ts = (case allocatePort ts of (port, ts) \<Rightarrow> port # allocate_ports k ts)"

lemma mod_window: "(a + i) mod n = (a + j) mod n \<Longrightarrow> i \<le> j \<Longrightarrow> j < i + n \<Longrightarrow> i = (j :: nat)"
proof -
  assume a: "(a + i) mod n = (a + j) mod n" "i \<le> j" "j < i + n"
  then have "n dvd j - i" using mod_eq_dvd_iff_nat [of "a + i" "a + j" n] by simp
  moreover have "j - i < n" using a by simp
  ultimately have "j - i = 0" using nat_dvd_not_less by blast
  then show ?thesis using a(2) by simp
qed

lemma next_port:
  assumes "49152 \<le> unat (p :: u16)"
  shows "unat (if p + 1 = 0 then 49152 else p + 1) = 49152 + (unat p - 49152 + 1) mod 16384"
proof (cases "unat p = 65535")
  case True
  then have "p = 65535" by (simp add: word_unat_eq_iff)
  then show ?thesis by simp
next
  case False
  then have lt: "unat p < 65535" using unsigned_less [of p, where 'a = nat] by simp
  then have u: "unat (p + 1) = unat p + 1" by (intro unat_add_lem [THEN iffD1, THEN trans]) simp_all
  then have "p + 1 \<noteq> 0" by (metis add_eq_0_iff_both_eq_0 unsigned_0 zero_neq_one)
  with u lt assms show ?thesis by simp
qed

text \<open>
  C21. Ephemeral ports. Starting from a stack whose next port is at least 49152, as
  \<open>InitTCPStack\<close> leaves it, the \<open>i\<close>-th port allocated is 49152 plus the start offset plus
  \<open>i\<close> modulo 16384: every port is an ephemeral port, and 16384 consecutive ones differ.
\<close>

theorem allocated_ports:
  assumes "49152 \<le> unat (nextPort ts)"
  shows "map unat (allocate_ports k ts) =
      map (\<lambda>i. 49152 + (unat (nextPort ts) - 49152 + i) mod 16384) [0..<k] \<and>
    (k \<le> 16384 \<longrightarrow> distinct (allocate_ports k ts))"
proof -
  have run: "map unat (allocate_ports k ts) =
      map (\<lambda>i. 49152 + (unat (nextPort ts) - 49152 + i) mod 16384) [0..<k]"
    using assms
  proof (induction k arbitrary: ts)
    case (Suc k)
    let ?ts = "snd (allocatePort ts)"
    have n: "unat (nextPort ?ts) = 49152 + (unat (nextPort ts) - 49152 + 1) mod 16384"
      using next_port [OF Suc.prems] by (simp add: allocatePort_def Let_def)
    then have "map unat (allocate_ports k ?ts) =
        map (\<lambda>i. 49152 + (unat (nextPort ?ts) - 49152 + i) mod 16384) [0..<k]"
      by (intro Suc.IH) simp
    also have "\<dots> = map (\<lambda>i. 49152 + (unat (nextPort ts) - 49152 + Suc i) mod 16384) [0..<k]"
      by (rule map_cong) (simp_all add: n mod_simps)
    also have "\<dots> = map (\<lambda>i. 49152 + (unat (nextPort ts) - 49152 + i) mod 16384) [1..<Suc k]"
      by (simp add: map_Suc_upt [symmetric] del: upt_Suc)
    finally have tail: "map unat (allocate_ports k ?ts) = \<dots>" .
    have "unat (nextPort ts) - 49152 < 16384" using unsigned_less [of "nextPort ts", where 'a = nat] by simp
    then have "unat (nextPort ts) = 49152 + (unat (nextPort ts) - 49152 + 0) mod 16384"
      using Suc.prems by simp
    with tail show ?case
      by (simp add: allocatePort_def Let_def upt_conv_Cons [of 0 "Suc k"] del: upt_Suc)
  qed simp
  have "distinct (map (\<lambda>i. 49152 + (unat (nextPort ts) - 49152 + i) mod 16384) [0..<k])" if "k \<le> 16384"
  proof -
    have "i = j" if ij: "i < k" "j < k" "(a + i) mod 16384 = (a + j) mod 16384" for a i j :: nat
      using mod_window [of a i 16384 j] mod_window [of a j 16384 i] ij \<open>k \<le> 16384\<close>
      by (cases "i \<le> j") auto
    then show ?thesis by (auto simp: distinct_map inj_on_def)
  qed
  with run show ?thesis by (metis distinct_map)
qed

theorem allocated_ports_witness:
  "distinct (allocate_ports 16384 (InitTCPStack ex_stack :: list_rb TCPStack))"
  using allocated_ports [of "InitTCPStack ex_stack :: list_rb TCPStack" 16384] by (simp add: InitTCPStack_def)

end
