(* ===== verification/TCP_Retransmission.thy ===== *)
theory TCP_Retransmission
  imports TCP_Table
begin

text \<open>
  Retransmission (\<open>pkg/tcpstack/retransmission.go\<close> and \<open>cleanUpInFlightPackets\<close> of
  \<open>handle.go\<close>): the packets in flight, the estimate of the round trip, and the resending of the
  first unacknowledged packet.
  The float arithmetic of \<open>computeRTO\<close> multiplies by quarters and eighths and truncates towards
  zero: exact on integers below \<open>2 ^ 50\<close> nanoseconds (13 days), where it is the integer formula
  below.
\<close>

section \<open>The round-trip estimate\<close>

definition rtt_sample :: "InFlightPacket list \<Rightarrow> u32 \<Rightarrow> Time \<Rightarrow> Duration" where
  "rtt_sample packets ackNum timeReceived =
     (case List.find (\<lambda>packet. if_SeqNum packet = ackNum) packets of
        Some packet \<Rightarrow> time_Sub timeReceived (timeSent packet)
      | None \<Rightarrow> 0)"

definition clamp_rto :: "Duration \<Rightarrow> Duration" where
  "clamp_rto rto = (if rto < MIN_RTO then MIN_RTO else if MSL < rto then MSL else rto)"

definition computeRTO :: "'rb SND \<Rightarrow> u32 \<Rightarrow> Time \<Rightarrow> 'rb SND" where
  "computeRTO s ackNum timeReceived =
     (let rtt = rtt_sample (inFlightPackets s) ackNum timeReceived;
          s = (if SRTT s = 0 then s\<lparr>SRTT := rtt, RTTVAR := go_div rtt 2\<rparr>
               else s\<lparr>RTTVAR := go_div (3 * RTTVAR s + \<bar>SRTT s - rtt\<bar>) 4,
                      SRTT := go_div (7 * SRTT s + rtt) 8\<rparr>)
      in s\<lparr>calculatedRTO := clamp_rto (SRTT s + 4 * RTTVAR s)\<rparr>)"

section \<open>Packets in flight\<close>

definition cleanUp_step ::
  "Time \<Rightarrow> u32 \<Rightarrow> InFlightPacket \<Rightarrow> 'rb SND \<times> InFlightPacket list \<Rightarrow> 'rb SND \<times> InFlightPacket list" where
  "cleanUp_step t ack pkt acc =
     (case acc of (s, newPackets) \<Rightarrow>
        if ack < if_SeqNum pkt + ucast (if_Length pkt) then (s, newPackets @ [pkt])
        else (reset_rto t (computeRTO s (if_SeqNum pkt) (timeSent pkt)), newPackets))"

definition cleanUpInFlightPackets :: "Time \<Rightarrow> TCPHeader \<Rightarrow> 'rb SND \<Rightarrow> 'rb SND" where
  "cleanUpInFlightPackets t header s =
     (case fold (cleanUp_step t (AckNum header)) (inFlightPackets s) (s, []) of
        (s, newPackets) \<Rightarrow> s\<lparr>inFlightPackets := newPackets\<rparr>)"

definition getFirstUnackedPacket :: "'rb SND \<Rightarrow> InFlightPacket option" where
  "getFirstUnackedPacket s = List.find (\<lambda>packet. UNA s \<le> if_SeqNum packet) (inFlightPackets s)"

section \<open>Retransmission\<close>

definition double_rto :: "Duration \<Rightarrow> Duration" where
  "double_rto rto = (if 60 * Second < rto * 2 then 60 * Second else rto * 2)"

definition retransmitPacket ::
  "'rb tcp_env \<Rightarrow> nat \<Rightarrow> 'rb TCPStack \<Rightarrow> (string option \<times> 'rb TCPStack) go" where
  "retransmitPacket env r ts =
     bindG (socket_of ts r) (\<lambda>socket.
       case getFirstUnackedPacket (so_snd socket) of
         None \<Rightarrow> Ret (None, ts)
       | Some packet \<Rightarrow>
           if RTO_MAX_RETRIES < retransmissions (so_snd socket)
           then Ret (Some ''max retransmissions reached'', ts)
           else
             (let header = \<lparr>SourcePort = ns_LocalPort socket, DestPort = ns_RemotePort socket,
                    SeqNum = if_SeqNum packet, AckNum = rcv_NXT (so_rcv socket), DataOffset = 5,
                    TFlags = if_flags packet, WindowSize = windowFlags packet, TChecksum = 0, UrgentPtr = 0\<rparr>;
                  tcpPacket = serializeTCPPacket header (if_data packet)
              in bindG (sendPacket env (ns_RemoteAddress socket) tcpPacket ts) (\<lambda>(err, ts).
                   if err \<noteq> None then Ret (err, ts)
                   else
                     (let s = so_snd socket;
                          newPackets = filter (\<lambda>p. if_SeqNum p \<noteq> if_SeqNum packet) (inFlightPackets s);
                          s = s\<lparr>inFlightPackets := newPackets @
                                 [\<lparr>if_data = if_data packet, if_SeqNum = if_SeqNum packet, if_Length = 0,
                                   timeSent = e_now env, if_flags = if_flags packet,
                                   windowFlags = windowFlags packet\<rparr>],
                                 retransmissions := retransmissions s + 1,
                                 calculatedRTO := double_rto (calculatedRTO s)\<rparr>
                      in Ret (None, put_socket r (socket\<lparr>so_snd := reset_rto (e_now env) s\<rparr>) ts)))))"

text \<open>The runtime's side of a timer: a deadline that has passed puts a tick into the channel.\<close>

definition timer_expire :: "Time \<Rightarrow> Timer \<Rightarrow> Timer" where
  "timer_expire t tm =
     (case deadline tm of
        Some d \<Rightarrow> if d \<le> t then \<lparr>deadline = None, pending = True\<rparr> else tm
      | None \<Rightarrow> tm)"

section \<open>Lemmas\<close>

lemma clamp_rto_range: "MIN_RTO \<le> clamp_rto d \<and> clamp_rto d \<le> MSL"
  by (simp add: clamp_rto_def MIN_RTO_def MSL_def)

text \<open>What cleaning up leaves alone.\<close>

definition same_but_rto :: "'rb SND \<Rightarrow> 'rb SND \<Rightarrow> bool" where
  "same_but_rto s s' \<longleftrightarrow> snd_buf s' = snd_buf s \<and> UNA s' = UNA s \<and> snd_NXT s' = snd_NXT s \<and>
     snd_WND s' = snd_WND s \<and> ISS s' = ISS s \<and> retransmissions s' = retransmissions s \<and>
     inFlightPackets s' = inFlightPackets s"

lemma same_but_rto_refl [simp]: "same_but_rto s s"
  by (simp add: same_but_rto_def)

lemma same_but_rto_trans: "same_but_rto s s' \<Longrightarrow> same_but_rto s' s'' \<Longrightarrow> same_but_rto s s''"
  by (simp add: same_but_rto_def)

lemma computeRTO_same: "same_but_rto s (reset_rto t (computeRTO s a u))"
  by (simp add: same_but_rto_def reset_rto_def computeRTO_def Let_def)

lemma cleanUp_fold:
  "same_but_rto s (fst (fold (cleanUp_step t ack) pkts (s, new))) \<and>
   snd (fold (cleanUp_step t ack) pkts (s, new)) =
     new @ filter (\<lambda>p. ack < if_SeqNum p + ucast (if_Length p)) pkts"
proof (induction pkts arbitrary: s new)
  case (Cons p pkts)
  show ?case
    using Cons.IH [of s "new @ [p]"] Cons.IH [of "reset_rto t (computeRTO s (if_SeqNum p) (timeSent p))" new]
      same_but_rto_trans [OF computeRTO_same]
    by (auto simp: cleanUp_step_def)
qed simp

text \<open>The fields of the retransmission estimate after a clean-up.\<close>

definition rto_fields :: "'rb SND \<Rightarrow> Duration \<times> Duration \<times> Duration \<times> Timer" where
  "rto_fields s = (SRTT s, RTTVAR s, calculatedRTO s, RTOtimer s)"

lemma cleanUp_eq:
  "cleanUpInFlightPackets t h s =
     (fst (fold (cleanUp_step t (AckNum h)) (inFlightPackets s) (s, [])))\<lparr>inFlightPackets :=
        filter (\<lambda>p. AckNum h < if_SeqNum p + ucast (if_Length p)) (inFlightPackets s)\<rparr>"
  using cleanUp_fold [of s t "AckNum h" "inFlightPackets s" "[]"]
  by (simp add: cleanUpInFlightPackets_def split_beta)

lemma cleanUp_fields [simp]:
  "snd_buf (cleanUpInFlightPackets t h s) = snd_buf s" "UNA (cleanUpInFlightPackets t h s) = UNA s"
  "snd_NXT (cleanUpInFlightPackets t h s) = snd_NXT s" "snd_WND (cleanUpInFlightPackets t h s) = snd_WND s"
  "ISS (cleanUpInFlightPackets t h s) = ISS s"
  "retransmissions (cleanUpInFlightPackets t h s) = retransmissions s"
  "inFlightPackets (cleanUpInFlightPackets t h s) =
     filter (\<lambda>p. AckNum h < if_SeqNum p + ucast (if_Length p)) (inFlightPackets s)"
  using cleanUp_fold [of s t "AckNum h" "inFlightPackets s" "[]"]
  by (simp_all add: cleanUp_eq same_but_rto_def)

lemma cleanUp_rto_range:
  assumes "\<exists>p \<in> set pkts. \<not> ack < if_SeqNum p + ucast (if_Length p)"
  shows "let s' = fst (fold (cleanUp_step t ack) pkts (s, new))
    in MIN_RTO \<le> calculatedRTO s' \<and> calculatedRTO s' \<le> MSL \<and> deadline (RTOtimer s') = Some (t + calculatedRTO s')"
  using assms
proof (induction pkts rule: rev_induct)
  case (snoc p pkts)
  have split: "fold (cleanUp_step t ack) (pkts @ [p]) (s, new) = cleanUp_step t ack p (fold (cleanUp_step t ack) pkts (s, new))"
    by simp
  show ?case
  proof (cases "ack < if_SeqNum p + ucast (if_Length p)")
    case True
    with snoc show ?thesis by (auto simp: cleanUp_step_def split_beta Let_def)
  next
    case False
    then show ?thesis
      using clamp_rto_range
      by (simp add: cleanUp_step_def split_beta Let_def reset_rto_def timer_Reset_def computeRTO_def)
  qed
qed simp

end
