(* ===== verification/TCP_Retransmission_Props.thy ===== *)
theory TCP_Retransmission_Props
  imports TCP_Retransmission TCP_Example
begin

text \<open>
  What acknowledging and retransmitting do: which packets an ACK removes, that the round trip is
  never measured, what a retransmission forgets, and the back-off with its limit.
\<close>

section \<open>Acknowledgement\<close>

lemma uint_end:
  assumes "uint s + uint (l :: u16) < 2 ^ 32"
  shows "uint (s + ucast l :: u32) = uint s + uint l"
proof -
  have "uint (ucast l :: u32) = uint l" by (rule uint_up_ucast) (simp add: is_up)
  with assms show ?thesis by (simp add: uint_add_lem [THEN iffD1])
qed

text \<open>
  C22. What an ACK removes. A clean-up keeps, in order, exactly the packets whose end lies beyond
  the acknowledged number (as numbers, when no packet's end wraps around), and touches nothing
  else but the round-trip estimate and the timer; when it removes a packet the timeout is between
  \<open>MIN_RTO\<close> and \<open>MSL\<close> and the timer is armed with it.
\<close>

theorem cleanup_removes_acked:
  assumes "\<forall>p \<in> set (inFlightPackets s). uint (if_SeqNum p) + uint (if_Length p) < 2 ^ 32"
  shows "let s' = cleanUpInFlightPackets t h s in
    inFlightPackets s' =
      filter (\<lambda>p. uint (AckNum h) < uint (if_SeqNum p) + uint (if_Length p)) (inFlightPackets s) \<and>
    (snd_buf s', UNA s', snd_NXT s', snd_WND s', ISS s', retransmissions s') =
      (snd_buf s, UNA s, snd_NXT s, snd_WND s, ISS s, retransmissions s) \<and>
    (if inFlightPackets s' = inFlightPackets s then rto_fields s' = rto_fields s
     else MIN_RTO \<le> calculatedRTO s' \<and> calculatedRTO s' \<le> MSL \<and>
       deadline (RTOtimer s') = Some (t + calculatedRTO s'))"
proof -
  let ?s' = "cleanUpInFlightPackets t h s"
  let ?keep = "\<lambda>p. AckNum h < if_SeqNum p + ucast (if_Length p)"
  have "?keep p \<longleftrightarrow> uint (AckNum h) < uint (if_SeqNum p) + uint (if_Length p)"
    if "p \<in> set (inFlightPackets s)" for p
    using assms that by (simp add: word_less_def uint_end)
  then have keep: "filter ?keep (inFlightPackets s) =
      filter (\<lambda>p. uint (AckNum h) < uint (if_SeqNum p) + uint (if_Length p)) (inFlightPackets s)"
    by (rule filter_cong [OF refl])
  have idle: "fold (cleanUp_step t ack) pkts (u, new) = (u, new @ pkts)"
    if "\<forall>p \<in> set pkts. ack < if_SeqNum p + ucast (if_Length p)" for pkts ack new and u :: "'a SND"
    using that by (induction pkts arbitrary: new) (simp_all add: cleanUp_step_def)
  show ?thesis
  proof (cases "\<forall>p \<in> set (inFlightPackets s). ?keep p")
    case True
    then have "rto_fields ?s' = rto_fields s"
      by (simp add: cleanUp_eq idle rto_fields_def)
    moreover have "filter ?keep (inFlightPackets s) = inFlightPackets s"
      using True by (intro filter_True) blast
    ultimately show ?thesis unfolding Let_def keep [symmetric] by (simp only: cleanUp_fields if_True simp_thms)
  next
    case False
    then have "filter ?keep (inFlightPackets s) \<noteq> inFlightPackets s" by (simp add: filter_id_conv)
    moreover have "MIN_RTO \<le> calculatedRTO ?s' \<and> calculatedRTO ?s' \<le> MSL \<and>
        deadline (RTOtimer ?s') = Some (t + calculatedRTO ?s')"
      using False cleanUp_rto_range [of "inFlightPackets s" "AckNum h" t s "[]"]
      by (simp add: Let_def cleanUp_eq)
    ultimately show ?thesis
      unfolding Let_def keep [symmetric] by (simp only: cleanUp_fields if_False simp_thms)
  qed
qed

definition ex_pkt :: "u32 \<Rightarrow> u16 \<Rightarrow> InFlightPacket" where
  "ex_pkt seq len = \<lparr>if_data = replicate (unat len) 7, if_SeqNum = seq, if_Length = len, timeSent = 5,
     if_flags = TCP_ACK, windowFlags = 0\<rparr>"

definition ex_flight :: "list_rb SND" where
  "ex_flight = ex_snd\<lparr>inFlightPackets := [ex_pkt 1001 10, ex_pkt 1011 20, ex_pkt 1031 5], snd_NXT := 1036\<rparr>"

definition ex_ack :: "u32 \<Rightarrow> TCPHeader" where
  "ex_ack a = \<lparr>SourcePort = 80, DestPort = 49152, SeqNum = 5001, AckNum = a, DataOffset = 5,
     TFlags = TCP_ACK, WindowSize = 65535, TChecksum = 0, UrgentPtr = 0\<rparr>"

theorem cleanup_removes_acked_witness:
  "inFlightPackets (cleanUpInFlightPackets 9 (ex_ack 1031) ex_flight) = [ex_pkt 1031 5]"
proof -
  have "\<forall>p \<in> set (inFlightPackets ex_flight). uint (if_SeqNum p) + uint (if_Length p) < 2 ^ 32"
    by (simp add: ex_flight_def ex_pkt_def)
  from cleanup_removes_acked [OF this, of 9 "ex_ack 1031"] show ?thesis
    by (simp add: Let_def ex_flight_def ex_pkt_def ex_ack_def)
qed

text \<open>
  C23. The round trip is never measured. \<open>cleanUpInFlightPackets\<close> passes a packet's own sending
  time as the time its ACK arrived, so every sample is zero: from the initial estimate, whatever is
  acknowledged and whenever, the estimate stays zero and the timeout returns to \<open>MIN_RTO\<close>.
\<close>

lemma find_distinct_seq:
  "distinct (map if_SeqNum ps) \<Longrightarrow> p \<in> set ps \<Longrightarrow>
   List.find (\<lambda>q. if_SeqNum q = if_SeqNum p) ps = Some p"
  by (induction ps) (auto simp: image_iff)

lemma zero_samples:
  assumes "distinct (map if_SeqNum (inFlightPackets s))" "set pkts \<subseteq> set (inFlightPackets s)"
    and "SRTT s = 0" "RTTVAR s = 0"
  shows "let s' = fst (fold (cleanUp_step t ack) pkts (s, new)) in SRTT s' = 0 \<and> RTTVAR s' = 0 \<and>
    calculatedRTO s' = (if \<forall>p \<in> set pkts. ack < if_SeqNum p + ucast (if_Length p)
                        then calculatedRTO s else MIN_RTO)"
  using assms
proof (induction pkts arbitrary: s new)
  case (Cons p pkts)
  have sample: "rtt_sample (inFlightPackets s) (if_SeqNum p) (timeSent p) = 0"
    using find_distinct_seq [OF Cons.prems(1), of p] Cons.prems(2) by (simp add: rtt_sample_def)
  let ?s = "reset_rto t (computeRTO s (if_SeqNum p) (timeSent p))"
  have s: "SRTT ?s = 0" "RTTVAR ?s = 0" "inFlightPackets ?s = inFlightPackets s" "calculatedRTO ?s = MIN_RTO"
    using Cons.prems(3,4)
    by (simp_all add: reset_rto_def computeRTO_def Let_def sample clamp_rto_def MIN_RTO_def)
  show ?case
    using Cons.IH [of s "new @ [p]"] Cons.IH [of ?s new] Cons.prems s
    by (auto simp: cleanUp_step_def Let_def split: if_splits)
qed simp



section \<open>Retransmission\<close>

lemma SendIP_Inr:
  assumes "stack_ok s" "marshals lib" "fst (NextHop_ft (ForwardingTable s) dst) \<noteq> []"
  shows "\<exists>eff. SendIP lib o1 o2 s dst pr ttl data = Ret (Inr eff)"
proof -
  obtain n nh where hop: "NextHop_ft (ForwardingTable s) dst = (n, nh)" "n \<noteq> []"
    using assms(3) by (cases "NextHop_ft (ForwardingTable s) dst") auto
  obtain i where i: "Interfaces s n = Some i" using NextHop_iface [OF assms(1) hop] by auto
  obtain eff where "ReceivePacket lib o1 o2 (CreatePacket lib (IPAddr i) dst ttl pr data) s = Ret eff"
    using ReceivePacket_returns [OF assms(1,2)] by (rule returnsE)
  with hop i show ?thesis by (simp add: SendIP_def)
qed

definition routed :: "'rb tcp_env \<Rightarrow> 'rb TCPStack \<Rightarrow> Addr \<Rightarrow> bool" where
  "routed env ts dst \<longleftrightarrow> stack_ok (ipStack ts) \<and> marshals (e_lib env) \<and>
     fst (NextHop_ft (ForwardingTable (ipStack ts)) dst) \<noteq> []"

lemma sendPacket_routed:
  assumes "routed env ts dst"
  shows "\<exists>eff. sendPacket env dst data ts = Ret (None, ts\<lparr>outbox := outbox ts @ [(dst, data, Inr eff)]\<rparr>)"
  using SendIP_Inr [of "ipStack ts" "e_lib env" dst "e_ord1 env" "e_ord2 env" TCP_PROTOCOL 16 data] assms
  by (auto simp: sendPacket_def routed_def)

lemma retransmit_sends:
  assumes "normals ts r = Some sock" "getFirstUnackedPacket (so_snd sock) = Some p"
    and "retransmissions (so_snd sock) \<le> 3" "routed env ts (ns_RemoteAddress sock)"
  shows "\<exists>ts' sock' s'. retransmitPacket env r ts = Ret (None, ts') \<and> normals ts' = (normals ts)(r \<mapsto> sock') \<and>
    ipStack ts' = ipStack ts \<and> length (outbox ts') = length (outbox ts) + 1 \<and>
    sock' = sock\<lparr>so_snd := s'\<rparr> \<and>
    inFlightPackets s' = filter (\<lambda>q. if_SeqNum q \<noteq> if_SeqNum p) (inFlightPackets (so_snd sock)) @
      [p\<lparr>if_Length := 0, timeSent := e_now env\<rparr>] \<and>
    UNA s' = UNA (so_snd sock) \<and> retransmissions s' = retransmissions (so_snd sock) + 1 \<and>
    calculatedRTO s' = min (60 * Second) (2 * calculatedRTO (so_snd sock)) \<and>
    deadline (RTOtimer s') = Some (e_now env + calculatedRTO s')"
proof -
  obtain eff where send: "\<And>data. sendPacket env (ns_RemoteAddress sock) data ts =
      Ret (None, ts\<lparr>outbox := outbox ts @ [(ns_RemoteAddress sock, data, Inr (eff data))]\<rparr>)"
    using sendPacket_routed [OF assms(4)] by metis
  have limit: "\<not> RTO_MAX_RETRIES < retransmissions (so_snd sock)"
    using assms(3) by (simp add: RTO_MAX_RETRIES_def)
  let ?s = "so_snd sock"
  let ?s' = "reset_rto (e_now env) (?s\<lparr>inFlightPackets := filter (\<lambda>q. if_SeqNum q \<noteq> if_SeqNum p) (inFlightPackets ?s) @
      [p\<lparr>if_Length := 0, timeSent := e_now env\<rparr>],
    retransmissions := retransmissions ?s + 1, calculatedRTO := double_rto (calculatedRTO ?s)\<rparr>)"
  have "\<exists>x. retransmitPacket env r ts =
      Ret (None, put_socket r (sock\<lparr>so_snd := ?s'\<rparr>) (ts\<lparr>outbox := outbox ts @ [x]\<rparr>))"
    using assms(1,2) limit by (cases p) (simp add: retransmitPacket_def socket_of_def Let_def send, blast)
  then obtain x where "retransmitPacket env r ts =
      Ret (None, put_socket r (sock\<lparr>so_snd := ?s'\<rparr>) (ts\<lparr>outbox := outbox ts @ [x]\<rparr>))" by blast
  then show ?thesis
    by (intro exI [of _ "put_socket r (sock\<lparr>so_snd := ?s'\<rparr>) (ts\<lparr>outbox := outbox ts @ [x]\<rparr>)"]
        exI [of _ "sock\<lparr>so_snd := ?s'\<rparr>"] exI [of _ ?s'])
       (simp add: put_socket_def reset_rto_def timer_Reset_def double_rto_def min_def)
qed

text \<open>
  C24. A retransmission forgets the length. It puts the packet back at the end of the queue with
  length zero, so an ACK whose number is merely the packet's own first byte, which says that this
  byte is still missing, removes it: its data will not be sent again.
\<close>

theorem retransmit_forgets_length:
  assumes "normals ts r = Some sock" "getFirstUnackedPacket (so_snd sock) = Some p"
    and "retransmissions (so_snd sock) \<le> 3" "routed env ts (ns_RemoteAddress sock)"
    and "AckNum h = if_SeqNum p"
  shows "\<exists>ts' sock'. retransmitPacket env r ts = Ret (None, ts') \<and> normals ts' r = Some sock' \<and>
    p\<lparr>if_Length := 0, timeSent := e_now env\<rparr> \<in> set (inFlightPackets (so_snd sock')) \<and>
    (\<forall>q \<in> set (inFlightPackets (cleanUpInFlightPackets t h (so_snd sock'))). if_SeqNum q \<noteq> if_SeqNum p)"
proof -
  obtain ts' sock' s' where r: "retransmitPacket env r ts = Ret (None, ts')"
    "normals ts' = (normals ts)(r \<mapsto> sock')" "sock' = sock\<lparr>so_snd := s'\<rparr>"
    "inFlightPackets s' = filter (\<lambda>q. if_SeqNum q \<noteq> if_SeqNum p) (inFlightPackets (so_snd sock)) @
      [p\<lparr>if_Length := 0, timeSent := e_now env\<rparr>]"
    using retransmit_sends [OF assms(1-4)] by blast
  then show ?thesis
    using assms(5) by (intro exI [of _ ts'] exI [of _ sock']) auto
qed

definition ex_busy :: "list_rb TCPStack" where
  "ex_busy = (ex_host TCP_ESTABLISHED)\<lparr>normals := [1 \<mapsto> ex_socket\<lparr>so_snd := ex_flight\<rparr>]\<rparr>"

lemma ex_busy_facts:
  "normals ex_busy 1 = Some (ex_socket\<lparr>so_snd := ex_flight\<rparr>)"
  "getFirstUnackedPacket (so_snd (ex_socket\<lparr>so_snd := ex_flight\<rparr>)) = Some (ex_pkt 1001 10)"
  "retransmissions (so_snd (ex_socket\<lparr>so_snd := ex_flight\<rparr>)) = 0"
  "calculatedRTO (so_snd (ex_socket\<lparr>so_snd := ex_flight\<rparr>)) = Second"
  by (simp_all add: ex_busy_def ex_flight_def ex_snd_def ex_pkt_def getFirstUnackedPacket_def MIN_RTO_def)

lemma ex_route: "fst (NextHop_ft (ForwardingTable ex_stack) (IPv4 0x0a000002)) \<noteq> []"
  unfolding ex_stack_def by code_simp

lemma ex_busy_routed: "routed ex_env ex_busy (ns_RemoteAddress (ex_socket\<lparr>so_snd := ex_flight\<rparr>))"
  using ex_stack_ok ex_total_lib_marshals ex_route by (simp add: routed_def ex_busy_def ex_socket_def)

theorem retransmit_forgets_length_witness:
  "\<exists>ts' sock'. retransmitPacket ex_env 1 ex_busy = Ret (None, ts') \<and> normals ts' 1 = Some sock' \<and>
     1001 \<notin> if_SeqNum ` set (inFlightPackets (cleanUpInFlightPackets 7 (ex_ack 1001) (so_snd sock')))"
proof -
  have ack: "AckNum (ex_ack 1001) = if_SeqNum (ex_pkt 1001 10)" by (simp add: ex_ack_def ex_pkt_def)
  have le: "retransmissions (so_snd (ex_socket\<lparr>so_snd := ex_flight\<rparr>)) \<le> 3" using ex_busy_facts(3) by simp
  obtain ts' sock' where "retransmitPacket ex_env 1 ex_busy = Ret (None, ts')" "normals ts' 1 = Some sock'"
    and gone: "\<forall>q \<in> set (inFlightPackets (cleanUpInFlightPackets 7 (ex_ack 1001) (so_snd sock'))).
      if_SeqNum q \<noteq> if_SeqNum (ex_pkt 1001 10)"
    using retransmit_forgets_length [OF ex_busy_facts(1,2) le ex_busy_routed ack] by blast
  moreover have "if_SeqNum (ex_pkt 1001 10) = 1001" by (simp add: ex_pkt_def)
  from gone [unfolded this]
  have "1001 \<notin> if_SeqNum ` set (inFlightPackets (cleanUpInFlightPackets 7 (ex_ack 1001) (so_snd sock')))"
    by (auto simp del: cleanUp_fields)
  ultimately show ?thesis by blast
qed

text \<open>
  C25. Back-off and limit. As long as nothing is acknowledged, the \<open>k\<close>-th retransmission doubles
  the timeout up to 60 seconds and arms the timer with it. Four retransmissions are sent, one more
  than \<open>RTO_MAX_RETRIES\<close>; the fifth attempt is an error and sends nothing.
\<close>

fun retransmit_n :: "'rb tcp_env \<Rightarrow> nat \<Rightarrow> nat \<Rightarrow> 'rb TCPStack \<Rightarrow> (string option \<times> 'rb TCPStack) go" where
  "retransmit_n env r 0 ts = Ret (None, ts)"
| "retransmit_n env r (Suc k) ts =
     bindG (retransmit_n env r k ts) (\<lambda>(err, ts).
       if err \<noteq> None then Ret (err, ts) else retransmitPacket env r ts)"

lemma first_unacked_stays:
  assumes "getFirstUnackedPacket s = Some p" "UNA s' = UNA s"
    and "inFlightPackets s' = filter (\<lambda>q. if_SeqNum q \<noteq> if_SeqNum p) (inFlightPackets s) @ [p\<lparr>if_Length := 0, timeSent := t\<rparr>]"
  shows "\<exists>q. getFirstUnackedPacket s' = Some q"
proof -
  have "UNA s \<le> if_SeqNum p" using find_in_set [OF assms(1) [unfolded getFirstUnackedPacket_def]] by simp
  then have "getFirstUnackedPacket s' \<noteq> None"
    using assms(2,3) by (auto simp: getFirstUnackedPacket_def find_None)
  then show ?thesis by auto
qed

lemma min_double: "min b (2 * min b x) = min b (2 * x)" if "0 \<le> b" for b x :: int
  using that by (simp add: min_def)

lemma retransmit_n_run:
  assumes "normals ts r = Some sock" "getFirstUnackedPacket (so_snd sock) = Some p"
    and "retransmissions (so_snd sock) = 0" "routed env ts (ns_RemoteAddress sock)"
    and "calculatedRTO (so_snd sock) \<le> 60 * Second" "k \<le> 4"
  shows "\<exists>ts' sock' q. retransmit_n env r k ts = Ret (None, ts') \<and> normals ts' r = Some sock' \<and>
    ipStack ts' = ipStack ts \<and> ns_RemoteAddress sock' = ns_RemoteAddress sock \<and>
    getFirstUnackedPacket (so_snd sock') = Some q \<and> retransmissions (so_snd sock') = int k \<and>
    length (outbox ts') = length (outbox ts) + k \<and>
    calculatedRTO (so_snd sock') = min (60 * Second) (2 ^ k * calculatedRTO (so_snd sock)) \<and>
    (0 < k \<longrightarrow> deadline (RTOtimer (so_snd sock')) = Some (e_now env + calculatedRTO (so_snd sock')))"
  using assms(6)
proof (induction k)
  case 0
  then show ?case using assms by (auto simp: min_def)
next
  case (Suc k)
  then obtain ts' sock' q where IH: "retransmit_n env r k ts = Ret (None, ts')" "normals ts' r = Some sock'"
    "ipStack ts' = ipStack ts" "ns_RemoteAddress sock' = ns_RemoteAddress sock"
    "getFirstUnackedPacket (so_snd sock') = Some q" "retransmissions (so_snd sock') = int k"
    "length (outbox ts') = length (outbox ts) + k"
    "calculatedRTO (so_snd sock') = min (60 * Second) (2 ^ k * calculatedRTO (so_snd sock))" by auto
  have "routed env ts' (ns_RemoteAddress sock')" using assms(4) IH(3,4) by (simp add: routed_def)
  then obtain ts'' sock'' s'' where step: "retransmitPacket env r ts' = Ret (None, ts'')"
    "normals ts'' = (normals ts')(r \<mapsto> sock'')" "ipStack ts'' = ipStack ts'"
    "length (outbox ts'') = length (outbox ts') + 1" "sock'' = sock'\<lparr>so_snd := s''\<rparr>"
    "inFlightPackets s'' = filter (\<lambda>x. if_SeqNum x \<noteq> if_SeqNum q) (inFlightPackets (so_snd sock')) @
      [q\<lparr>if_Length := 0, timeSent := e_now env\<rparr>]"
    "UNA s'' = UNA (so_snd sock')" "retransmissions s'' = retransmissions (so_snd sock') + 1"
    "calculatedRTO s'' = min (60 * Second) (2 * calculatedRTO (so_snd sock'))"
    "deadline (RTOtimer s'') = Some (e_now env + calculatedRTO s'')"
    using retransmit_sends [OF IH(2,5)] IH(6) Suc.prems by (fastforce simp del: fun_upd_apply)
  obtain q' where "getFirstUnackedPacket s'' = Some q'"
    using first_unacked_stays [OF IH(5) step(7,6)] by blast
  moreover have "calculatedRTO s'' = min (60 * Second) (2 ^ Suc k * calculatedRTO (so_snd sock))"
    unfolding step(9) IH(8) power_Suc mult.assoc by (rule min_double) simp
  ultimately show ?case using step IH by simp
qed

theorem retransmission_backoff:
  assumes "normals ts r = Some sock" "getFirstUnackedPacket (so_snd sock) = Some p"
    and "retransmissions (so_snd sock) = 0" "routed env ts (ns_RemoteAddress sock)"
    and "calculatedRTO (so_snd sock) \<le> 60 * Second"
  shows "(\<forall>k \<le> 4. \<exists>ts' sock'. retransmit_n env r k ts = Ret (None, ts') \<and> normals ts' r = Some sock' \<and>
      length (outbox ts') = length (outbox ts) + k \<and>
      calculatedRTO (so_snd sock') = min (60 * Second) (2 ^ k * calculatedRTO (so_snd sock)) \<and>
      (0 < k \<longrightarrow> deadline (RTOtimer (so_snd sock')) = Some (e_now env + calculatedRTO (so_snd sock')))) \<and>
    (\<exists>ts'. retransmit_n env r 5 ts = Ret (Some ''max retransmissions reached'', ts') \<and>
      length (outbox ts') = length (outbox ts) + 4)"
proof
  show "\<forall>k \<le> 4. \<exists>ts' sock'. retransmit_n env r k ts = Ret (None, ts') \<and> normals ts' r = Some sock' \<and>
      length (outbox ts') = length (outbox ts) + k \<and>
      calculatedRTO (so_snd sock') = min (60 * Second) (2 ^ k * calculatedRTO (so_snd sock)) \<and>
      (0 < k \<longrightarrow> deadline (RTOtimer (so_snd sock')) = Some (e_now env + calculatedRTO (so_snd sock')))"
    using retransmit_n_run [OF assms] by blast
next
  obtain ts' sock' q where "retransmit_n env r 4 ts = Ret (None, ts')" "normals ts' r = Some sock'"
    "getFirstUnackedPacket (so_snd sock') = Some q" "retransmissions (so_snd sock') = 4"
    "length (outbox ts') = length (outbox ts) + 4"
    using retransmit_n_run [OF assms, of 4] by auto
  moreover have "retransmit_n env r 5 ts = bindG (retransmit_n env r 4 ts) (\<lambda>(err, ts).
       if err \<noteq> None then Ret (err, ts) else retransmitPacket env r ts)"
    using retransmit_n.simps(2) [of env r 4 ts] by simp
  ultimately show "\<exists>ts'. retransmit_n env r 5 ts = Ret (Some ''max retransmissions reached'', ts') \<and>
      length (outbox ts') = length (outbox ts) + 4"
    by (simp add: retransmitPacket_def socket_of_def RTO_MAX_RETRIES_def)
qed

theorem retransmission_backoff_witness:
  "\<exists>ts'. retransmit_n ex_env 1 5 ex_busy = Ret (Some ''max retransmissions reached'', ts') \<and> length (outbox ts') = 4"
  using conjunct2 [OF retransmission_backoff [OF ex_busy_facts(1-3) ex_busy_routed]] ex_busy_facts(4)
  by (simp add: ex_busy_def)

end
