(* ===== verification/TCP_Handle.thy ===== *)
theory TCP_Handle
  imports TCP_Retransmission
begin

text \<open>
  Receiving a segment (\<open>pkg/tcpstack/handle.go\<close>): the dispatch on the connection's state, the
  handshake, in-order and early data, acknowledgements and the closing handshake.
  \<^item> A handler takes the pointer \<open>VFindTableEntry\<close> returned and the stack, and returns the stack.
    A failed type assertion or a nil dereference is \<open>Panic\<close>.
  \<^item> The listener's accept queue is a channel of capacity 10: sending on a full one is \<open>Block\<close>,
    as is a write to a full receive buffer.
  \<^item> Errors of \<open>sendPacket\<close> are dropped, as in the code.
\<close>

section \<open>Building segments\<close>

definition has :: "TCPHeader \<Rightarrow> u8 \<Rightarrow> bool" where
  "has header flag \<longleftrightarrow> TFlags header AND flag \<noteq> 0"

definition make_header :: "u16 \<Rightarrow> u16 \<Rightarrow> u32 \<Rightarrow> u32 \<Rightarrow> u8 \<Rightarrow> u16 \<Rightarrow> TCPHeader" where
  "make_header sourcePort destPort seqNum ackNum flags wnd =
     \<lparr>SourcePort = sourcePort, DestPort = destPort, SeqNum = seqNum, AckNum = ackNum, DataOffset = 5,
      TFlags = flags, WindowSize = wnd, TChecksum = 0, UrgentPtr = 0\<rparr>"

text \<open>\<open>sendPacket\<close> with its error ignored.\<close>

definition send_quiet :: "'rb tcp_env \<Rightarrow> Addr \<Rightarrow> TCPHeader \<Rightarrow> byte list \<Rightarrow> 'rb TCPStack \<Rightarrow> 'rb TCPStack go" where
  "send_quiet env dst header payload ts =
     mapG snd (sendPacket env dst (serializeTCPPacket header payload) ts)"

definition normal_ref :: "Socket \<Rightarrow> nat go" where
  "normal_ref s = (case s of NormalRef r \<Rightarrow> Ret r | _ \<Rightarrow> Panic)"

definition listen_ref :: "Socket \<Rightarrow> nat go" where
  "listen_ref s = (case s of ListenRef r \<Rightarrow> Ret r | _ \<Rightarrow> Panic)"

definition update_socket ::
  "nat \<Rightarrow> ('rb NormalSocket \<Rightarrow> 'rb NormalSocket) \<Rightarrow> 'rb TCPStack \<Rightarrow> 'rb TCPStack go" where
  "update_socket r f ts = mapG (\<lambda>s. put_socket r (f s) ts) (socket_of ts r)"

definition accept_push :: "nat \<Rightarrow> nat \<Rightarrow> 'rb TCPStack \<Rightarrow> 'rb TCPStack go" where
  "accept_push lr r ts =
     (case listeners ts lr of
        None \<Rightarrow> Panic
      | Some l \<Rightarrow>
          if length (acceptQueue l) < 10
          then Ret (ts\<lparr>listeners := (listeners ts)(lr \<mapsto> l\<lparr>acceptQueue := acceptQueue l @ [r]\<rparr>)\<rparr>)
          else Block)"

definition new_buffer :: "'rb tcp_env \<Rightarrow> 'rb" where
  "new_buffer env = rb_SetBlocking (e_rb env) (rb_New (e_rb env) (unat BUFFER_SIZE)) True"

section \<open>The handshake\<close>

definition new_child :: "'rb tcp_env \<Rightarrow> TCPTableEntry \<Rightarrow> TCPHeader \<Rightarrow> Addr \<Rightarrow> int \<Rightarrow> 'rb NormalSocket" where
  "new_child env entry header srcAddr sid =
     (let isn = generateInitialSeqNum (e_now env - unix_epoch) in
      \<lparr>SID = sid, ns_LocalAddress = LocalAddress entry, ns_LocalPort = LocalPort entry,
       ns_RemoteAddress = srcAddr, ns_RemotePort = SourcePort header, ns_SeqNum = isn,
       ns_AckNum = SeqNum header + 1,
       so_snd = \<lparr>snd_buf = new_buffer env, UNA = isn, snd_NXT = isn + 1, snd_WND = WindowSize header,
         ISS = isn, calculatedRTO = MIN_RTO, RTOtimer = timer_Stop (NewTimer (e_now env) MIN_RTO),
         SRTT = 0, RTTVAR = 0, retransmissions = 0, inFlightPackets = []\<rparr>,
       so_rcv = \<lparr>rcv_buf = new_buffer env, rcv_WND = BUFFER_SIZE, rcv_NXT = SeqNum header + 1,
         IRS = SeqNum header, earlyData = []\<rparr>,
       lastActive = 0, establishedChan = False\<rparr>)"

definition track :: "Time \<Rightarrow> InFlightPacket \<Rightarrow> 'rb NormalSocket \<Rightarrow> 'rb NormalSocket" where
  "track t pkt s = s\<lparr>so_snd := reset_rto t
     ((so_snd s)\<lparr>inFlightPackets := inFlightPackets (so_snd s) @ [pkt]\<rparr>)\<rparr>"

definition handleSYN ::
  "'rb tcp_env \<Rightarrow> entry_ptr \<Rightarrow> TCPHeader \<Rightarrow> Addr \<Rightarrow> 'rb TCPStack \<Rightarrow> 'rb TCPStack go" where
  "handleSYN env p header srcAddr ts =
     (let entry = deref ts p;
          (sid, ts) = generateSID ts;
          newSocket = new_child env entry header srcAddr sid;
          r = nextRef ts;
          ts = ts\<lparr>nextRef := r + 1, normals := (normals ts)(r \<mapsto> newSocket)\<rparr>
      in bindG (listen_ref (SocketStruct entry)) (\<lambda>lr.
           let newEntry = \<lparr>LocalAddress = LocalAddress entry, LocalPort = LocalPort entry,
                 RemoteAddress = srcAddr, RemotePort = SourcePort header,
                 State = TCP_SYN_RECEIVED, SocketStruct = NormalRef r\<rparr>;
               ts = VInsertTableEntry env newEntry ts;
               synAckHeader = make_header (LocalPort (deref ts p)) (SourcePort header) (ns_SeqNum newSocket)
                 (ns_AckNum newSocket) (TCP_SYN OR TCP_ACK) (rcv_WND (so_rcv newSocket));
               pkt = \<lparr>if_data = [], if_SeqNum = SeqNum synAckHeader, if_Length = 0, timeSent = e_now env,
                 if_flags = TFlags synAckHeader, windowFlags = WindowSize synAckHeader\<rparr>;
               ts = put_socket r (track (e_now env) pkt newSocket) ts
           in bindG (send_quiet env srcAddr synAckHeader [] ts) (\<lambda>ts.
                if has header TCP_ACK then accept_push lr r ts else Ret ts)))"

definition handleSYNACK :: "'rb tcp_env \<Rightarrow> entry_ptr \<Rightarrow> TCPHeader \<Rightarrow> 'rb TCPStack \<Rightarrow> 'rb TCPStack go" where
  "handleSYNACK env p header ts =
     (let entry = deref ts p
      in bindG (normal_ref (SocketStruct entry)) (\<lambda>r.
         bindG (socket_of ts r) (\<lambda>socket.
           let rc = (so_rcv socket)\<lparr>IRS := SeqNum header, rcv_NXT := SeqNum header + 1\<rparr>;
               sn = (so_snd socket)\<lparr>UNA := AckNum header, snd_NXT := AckNum header,
                      snd_WND := WindowSize header\<rparr>;
               ts = set_State p TCP_ESTABLISHED ts;
               ackHeader = make_header (LocalPort entry) (RemotePort entry) (snd_NXT sn) (rcv_NXT rc)
                 TCP_ACK (rcv_WND rc);
               sn = (stop_rto sn)\<lparr>inFlightPackets := []\<rparr>;
               socket = socket\<lparr>ns_AckNum := SeqNum header + 1, so_rcv := rc, so_snd := sn,
                          establishedChan := False\<rparr>
           in send_quiet env (RemoteAddress entry) ackHeader [] (put_socket r socket ts))))"

text \<open>Re-arm the timer when something is still unacknowledged, else stop it.\<close>

definition rearm :: "Time \<Rightarrow> 'rb SND \<Rightarrow> 'rb SND" where
  "rearm t s = (if inFlightPackets s \<noteq> [] then reset_rto t s else stop_rto s)"

definition handleACK :: "'rb tcp_env \<Rightarrow> entry_ptr \<Rightarrow> TCPHeader \<Rightarrow> 'rb TCPStack \<Rightarrow> 'rb TCPStack go" where
  "handleACK env p header ts =
     (let entry = deref ts p
      in bindG (normal_ref (SocketStruct entry)) (\<lambda>r.
         let ts = set_State p TCP_ESTABLISHED ts
         in bindG (update_socket r (\<lambda>s. s\<lparr>ns_SeqNum := ns_SeqNum s + 1, ns_AckNum := SeqNum header + 1\<rparr>) ts) (\<lambda>ts.
            bindG
              (case VFindTableEntry ts (LocalAddress entry) (LocalPort entry) NoAddr 0 of
                 Some parent \<Rightarrow>
                   if State (deref ts parent) = TCP_LISTEN
                   then bindG (listen_ref (SocketStruct (deref ts parent))) (\<lambda>lr. accept_push lr r ts)
                   else Ret ts
               | None \<Rightarrow> Ret ts) (\<lambda>ts.
              update_socket r (\<lambda>s. s\<lparr>so_snd := rearm (e_now env)
                (cleanUpInFlightPackets (e_now env) header (so_snd s))\<rparr>) ts))))"

section \<open>Data\<close>

definition findNextSequence :: "EarlyData list \<Rightarrow> u32 \<Rightarrow> EarlyData option" where
  "findNextSequence early expectedSeq = List.find (\<lambda>e. ed_SeqNum e = expectedSeq) early"

fun removePacket :: "EarlyData list \<Rightarrow> u32 \<Rightarrow> EarlyData list" where
  "removePacket [] seqNum = []"
| "removePacket (e # es) seqNum = (if ed_SeqNum e = seqNum then es else e # removePacket es seqNum)"

lemma removePacket_shorter:
  "findNextSequence es n = Some e \<Longrightarrow> length (removePacket es (ed_SeqNum e)) < length es"
  by (induction es) (auto simp: findNextSequence_def split: if_splits dest: find_in_set)

lemma bindG_cong [fundef_cong]: "m = m' \<Longrightarrow> (\<And>x. m' = Ret x \<Longrightarrow> f x = f' x) \<Longrightarrow> bindG m f = bindG m' f'"
  by (cases m') auto

text \<open>The loop that moves early segments which have become the next ones into the buffer.\<close>

function drain_early :: "'rb rb_ops \<Rightarrow> 'rb RCV \<Rightarrow> 'rb RCV go" where
  "drain_early ops s =
     (case findNextSequence (earlyData s) (rcv_NXT s) of
        None \<Rightarrow> Ret s
      | Some nextPacket \<Rightarrow>
          bindG (rb_Write ops (rcv_buf s) (ed_data nextPacket)) (\<lambda>(n, err, buf).
            if err \<noteq> None then Ret (s\<lparr>rcv_buf := buf\<rparr>)
            else drain_early ops (s\<lparr>rcv_buf := buf, rcv_NXT := rcv_NXT s + word_of_nat n,
                   earlyData := removePacket (earlyData s) (ed_SeqNum nextPacket)\<rparr>)))"
  by pat_completeness auto
termination
  by (relation "measure (\<lambda>(ops, s). length (earlyData s))") (auto intro: removePacket_shorter)

declare drain_early.simps [simp del]

definition processInOrderData ::
  "'rb tcp_env \<Rightarrow> nat \<Rightarrow> byte list \<Rightarrow> 'rb TCPStack \<Rightarrow> 'rb TCPStack go" where
  "processInOrderData env r payload ts =
     bindG (socket_of ts r) (\<lambda>socket.
     bindG (rb_Write (e_rb env) (rcv_buf (so_rcv socket)) payload) (\<lambda>(n, err, buf).
       let rc = (so_rcv socket)\<lparr>rcv_buf := buf\<rparr>
       in if err \<noteq> None then Ret (put_socket r (socket\<lparr>so_rcv := rc\<rparr>) ts)
          else bindG (drain_early (e_rb env) (rc\<lparr>rcv_NXT := rcv_NXT rc + word_of_nat n\<rparr>)) (\<lambda>rc.
            let rc = rc\<lparr>rcv_WND := word_of_nat (rb_Free (e_rb env) (rcv_buf rc))\<rparr>;
                ackHeader = make_header (ns_LocalPort socket) (ns_RemotePort socket) (snd_NXT (so_snd socket))
                  (rcv_NXT rc) TCP_ACK (rcv_WND rc)
            in send_quiet env (ns_RemoteAddress socket) ackHeader []
                 (put_socket r (socket\<lparr>so_rcv := rc\<rparr>) ts))))"

definition handleData ::
  "'rb tcp_env \<Rightarrow> entry_ptr \<Rightarrow> TCPHeader \<Rightarrow> byte list \<Rightarrow> 'rb TCPStack \<Rightarrow> 'rb TCPStack go" where
  "handleData env p header payload ts =
     (let entry = deref ts p
      in bindG (normal_ref (SocketStruct entry)) (\<lambda>r.
         bindG (socket_of ts r) (\<lambda>socket.
           if SeqNum header = rcv_NXT (so_rcv socket) then processInOrderData env r payload ts
           else
             (let rc = so_rcv socket;
                  rc = rc\<lparr>earlyData := earlyData rc @
                         [\<lparr>ed_data = payload, ed_SeqNum = SeqNum header, ed_Length = word_of_nat (length payload)\<rparr>]\<rparr>;
                  ackHeader = make_header (LocalPort entry) (RemotePort entry) (snd_NXT (so_snd socket))
                    (rcv_NXT rc) TCP_ACK (rcv_WND rc)
              in send_quiet env (RemoteAddress entry) ackHeader []
                   (put_socket r (socket\<lparr>so_rcv := rc\<rparr>) ts)))))"

definition accept_ack :: "Time \<Rightarrow> TCPHeader \<Rightarrow> 'rb SND \<Rightarrow> 'rb SND" where
  "accept_ack t header s =
     (if has header TCP_ACK \<and> inFlightPackets s \<noteq> [] then
        (if AckNum header \<le> UNA s then s
         else (rearm t (cleanUpInFlightPackets t header (s\<lparr>UNA := AckNum header\<rparr>)))\<lparr>retransmissions := 0\<rparr>)
      else s)"

definition handleEstablishedPacket ::
  "'rb tcp_env \<Rightarrow> entry_ptr \<Rightarrow> TCPHeader \<Rightarrow> byte list \<Rightarrow> 'rb TCPStack \<Rightarrow> 'rb TCPStack go" where
  "handleEstablishedPacket env p header payload ts =
     bindG (normal_ref (SocketStruct (deref ts p))) (\<lambda>r.
     bindG (update_socket r (\<lambda>s. s\<lparr>so_snd := (so_snd s)\<lparr>snd_WND := WindowSize header\<rparr>\<rparr>) ts) (\<lambda>ts.
     bindG (if payload \<noteq> [] then handleData env p header payload ts else Ret ts) (\<lambda>ts.
       update_socket r (\<lambda>s. s\<lparr>so_snd := accept_ack (e_now env) header (so_snd s)\<rparr>) ts)))"

section \<open>Closing\<close>

definition handleFIN :: "'rb tcp_env \<Rightarrow> entry_ptr \<Rightarrow> TCPHeader \<Rightarrow> 'rb TCPStack \<Rightarrow> 'rb TCPStack go" where
  "handleFIN env p header ts =
     (let entry = deref ts p
      in bindG (normal_ref (SocketStruct entry)) (\<lambda>r.
         bindG (socket_of ts r) (\<lambda>socket.
           let rc = (so_rcv socket)\<lparr>rcv_NXT := SeqNum header + 1, rcv_WND := WindowSize header\<rparr>;
               ackHeader = make_header (LocalPort entry) (RemotePort entry) (snd_NXT (so_snd socket))
                 (rcv_NXT rc) TCP_ACK (rcv_WND rc)
           in bindG (send_quiet env (RemoteAddress entry) ackHeader []
                      (put_socket r (socket\<lparr>so_rcv := rc\<rparr>) ts)) (\<lambda>ts.
              bindG (update_socket r (\<lambda>s. s\<lparr>so_snd := cleanUpInFlightPackets (e_now env) header (so_snd s)\<rparr>) ts) (\<lambda>ts.
                let ts = (if State (deref ts p) = TCP_ESTABLISHED then set_State p TCP_CLOSE_WAIT ts else ts)
                in Ret (if State (deref ts p) = TCP_FIN_WAIT_2
                        then (set_State p TCP_TIME_WAIT ts)
                               \<lparr>closers := closers ts @ [(e_now env + 2 * MSL, p)]\<rparr>
                        else ts))))))"

definition handleClosingACK :: "'rb tcp_env \<Rightarrow> entry_ptr \<Rightarrow> TCPHeader \<Rightarrow> 'rb TCPStack \<Rightarrow> 'rb TCPStack go" where
  "handleClosingACK env p header ts =
     bindG (normal_ref (SocketStruct (deref ts p))) (\<lambda>r.
     bindG (update_socket r (\<lambda>s. s\<lparr>so_rcv := (so_rcv s)\<lparr>rcv_WND := WindowSize header\<rparr>,
        so_snd := stop_rto (cleanUpInFlightPackets (e_now env) header (so_snd s))\<rparr>) ts) (\<lambda>ts.
       let ts = (if State (deref ts p) = TCP_FIN_WAIT_1 then set_State p TCP_FIN_WAIT_2 ts else ts)
       in if State (deref ts p) = TCP_LAST_ACK
          then (let ts = set_State p TCP_CLOSED ts in VDeleteTableEntry (deref ts p) ts)
          else Ret ts))"

definition handleRST :: "entry_ptr \<Rightarrow> 'rb TCPStack \<Rightarrow> 'rb TCPStack go" where
  "handleRST p ts = (let ts = set_State p TCP_CLOSED ts in VDeleteTableEntry (deref ts p) ts)"

text \<open>The goroutine that \<open>handleFIN\<close> starts, when it wakes up: the \<open>i\<close>-th sleeper.\<close>

definition closer_wakes :: "'rb tcp_env \<Rightarrow> nat \<Rightarrow> 'rb TCPStack \<Rightarrow> 'rb TCPStack go" where
  "closer_wakes env i ts =
     (if i < length (closers ts) \<and> fst (closers ts ! i) \<le> e_now env
      then (let p = snd (closers ts ! i);
                ts = set_State p TCP_CLOSED (ts\<lparr>closers := take i (closers ts) @ drop (Suc i) (closers ts)\<rparr>)
            in VDeleteTableEntry (deref ts p) ts)
      else Ret ts)"

section \<open>Dispatch\<close>

definition when_go :: "bool \<Rightarrow> ('s \<Rightarrow> 's go) \<Rightarrow> 's \<Rightarrow> 's go" where
  "when_go c f s = (if c then f s else Ret s)"

definition dispatch ::
  "'rb tcp_env \<Rightarrow> entry_ptr \<Rightarrow> TCPHeader \<Rightarrow> byte list \<Rightarrow> Addr \<Rightarrow> 'rb TCPStack \<Rightarrow> 'rb TCPStack go" where
  "dispatch env p header payload srcAddr ts =
     (case State (deref ts p) of
        TCP_LISTEN \<Rightarrow> when_go (has header TCP_SYN) (handleSYN env p header srcAddr) ts
      | TCP_SYN_SENT \<Rightarrow> when_go (has header TCP_SYN \<and> has header TCP_ACK) (handleSYNACK env p header) ts
      | TCP_SYN_RECEIVED \<Rightarrow> when_go (has header TCP_ACK) (handleACK env p header) ts
      | TCP_ESTABLISHED \<Rightarrow>
          bindG (when_go (has header TCP_ACK \<or> payload \<noteq> []) (handleEstablishedPacket env p header payload) ts)
            (when_go (has header TCP_FIN) (handleFIN env p header))
      | TCP_FIN_WAIT_1 \<Rightarrow>
          bindG (when_go (payload \<noteq> []) (handleEstablishedPacket env p header payload) ts)
            (when_go (has header TCP_ACK) (handleClosingACK env p header))
      | TCP_FIN_WAIT_2 \<Rightarrow>
          bindG (when_go (payload \<noteq> []) (handleEstablishedPacket env p header payload) ts) (\<lambda>ts.
          bindG (when_go (has header TCP_FIN) (handleFIN env p header) ts)
            (when_go (has header TCP_ACK) (handleClosingACK env p header)))
      | TCP_CLOSE_WAIT \<Rightarrow> Ret ts
      | TCP_CLOSING \<Rightarrow> when_go (has header TCP_ACK) (handleClosingACK env p header) ts
      | TCP_TIME_WAIT \<Rightarrow>
          bindG (when_go (has header TCP_FIN) (handleFIN env p header) ts)
            (when_go (has header TCP_ACK) (handleClosingACK env p header))
      | TCP_LAST_ACK \<Rightarrow> when_go (has header TCP_ACK) (handleClosingACK env p header) ts
      | TCP_CLOSED \<Rightarrow> Ret ts)"

definition HandleTCP ::
  "'rb tcp_env \<Rightarrow> Addr \<Rightarrow> Addr \<Rightarrow> byte list \<Rightarrow> byte list \<Rightarrow> 'rb TCPStack \<Rightarrow> (string option \<times> 'rb TCPStack) go" where
  "HandleTCP env srcAddr dstAddr packet spare ts =
     bindG (ParseTCPHeader packet spare) (\<lambda>(header, payload).
       case VFindTableEntry ts dstAddr (DestPort header) srcAddr (SourcePort header) of
         None \<Rightarrow> Ret (Some ''entry not found'', ts)
       | Some p \<Rightarrow>
           if has header TCP_RST \<and> State (deref ts p) \<noteq> TCP_LISTEN
           then mapG (Pair None) (handleRST p ts)
           else mapG (Pair None) (dispatch env p header payload srcAddr ts))"

end
