(* ===== verification/TCP_Safety.thy ===== *)
theory TCP_Safety
  imports TCP_Handle TCP_Table_Props
begin

text \<open>
  The type safety of the segment handlers. A host is well formed when every entry of its table
  holds a listener exactly in state LISTEN and an existing connection otherwise, no two entries share
  a socket, references are fresh and every buffer is a good ring buffer. On such a host a handler
  never panics: no type assertion and no dereference fails. The lemmas also say precisely what each
  handler does to the table, which the state machine and the reachability theorems use.
\<close>

section \<open>Calls that do not panic\<close>

text \<open>\<open>safe P m\<close>: the call does not panic, and if it returns, its result satisfies \<open>P\<close>.\<close>

fun safe :: "('a \<Rightarrow> bool) \<Rightarrow> 'a go \<Rightarrow> bool" where
  "safe P (Ret x) = P x"
| "safe P Panic = False"
| "safe P Block = True"

lemma safe_bind: "safe P m \<Longrightarrow> (\<And>x. P x \<Longrightarrow> safe Q (f x)) \<Longrightarrow> safe Q (bindG m f)"
  by (cases m) simp_all

lemma safe_mapG: "safe (\<lambda>x. P (f x)) m \<Longrightarrow> safe P (mapG f m)"
  by (cases m) simp_all

lemma safe_mono: "safe P m \<Longrightarrow> (\<And>x. P x \<Longrightarrow> Q x) \<Longrightarrow> safe Q m"
  by (cases m) simp_all

lemma safe_returns: "returns m \<Longrightarrow> (\<And>x. m = Ret x \<Longrightarrow> P x) \<Longrightarrow> safe P m"
  by (cases m) simp_all

lemma safe_not_Panic: "safe P m \<Longrightarrow> m \<noteq> Panic"
  by (cases m) simp_all

lemma safe_Ret: "safe P m \<Longrightarrow> m = Ret x \<Longrightarrow> P x"
  by simp

section \<open>The invariant\<close>

definition buffers_ok :: "('rb \<Rightarrow> bool) \<Rightarrow> 'rb NormalSocket \<Rightarrow> bool" where
  "buffers_ok good s \<longleftrightarrow> good (snd_buf (so_snd s)) \<and> good (rcv_buf (so_rcv s))"

definition entry_ok :: "nat set \<Rightarrow> nat set \<Rightarrow> TCPTableEntry \<Rightarrow> bool" where
  "entry_ok ns ls e \<longleftrightarrow> (case SocketStruct e of
     NoSocket \<Rightarrow> False
   | NormalRef r \<Rightarrow> State e \<noteq> TCP_LISTEN \<and> r \<in> ns
   | ListenRef r \<Rightarrow> State e = TCP_LISTEN \<and> r \<in> ls)"

definition closers_ok :: "'rb TCPStack \<Rightarrow> bool" where
  "closers_ok ts \<longleftrightarrow> (\<forall>(t, g, i) \<in> set (closers ts). g \<le> tgen ts \<and> i < length (arrays ts g))"

definition socks_ok :: "('rb \<Rightarrow> bool) \<Rightarrow> 'rb TCPStack \<Rightarrow> bool" where
  "socks_ok good ts \<longleftrightarrow> (\<forall>r s. normals ts r = Some s \<longrightarrow> buffers_ok good s)"

definition refs_ok :: "'rb TCPStack \<Rightarrow> bool" where
  "refs_ok ts \<longleftrightarrow> (\<forall>r \<in> dom (normals ts) \<union> dom (listeners ts). r < nextRef ts)"

definition host_ok :: "('rb \<Rightarrow> bool) \<Rightarrow> 'rb TCPStack \<Rightarrow> bool" where
  "host_ok good ts \<longleftrightarrow> table_wf ts \<and>
     (\<forall>e \<in> set (table_entries ts). entry_ok (dom (normals ts)) (dom (listeners ts)) e) \<and>
     closers_ok ts \<and> socks_ok good ts \<and> refs_ok ts \<and> stack_ok (ipStack ts)"

definition env_ok :: "'rb tcp_env \<Rightarrow> ('rb \<Rightarrow> bool) \<Rightarrow> ('rb \<Rightarrow> byte list) \<Rightarrow> ('rb \<Rightarrow> nat) \<Rightarrow> bool" where
  "env_ok env good content cap \<longleftrightarrow> growing env \<and> marshals (e_lib env) \<and>
     rb_laws (e_rb env) good content cap"

lemma env_okD: "env_ok env good content cap \<Longrightarrow> growing env"
  "env_ok env good content cap \<Longrightarrow> marshals (e_lib env)"
  "env_ok env good content cap \<Longrightarrow> rb_laws (e_rb env) good content cap"
  by (simp_all add: env_ok_def)

text \<open>The table, the references and the network are untouched; sockets may change in place.\<close>

definition quiet :: "('rb \<Rightarrow> bool) \<Rightarrow> 'rb TCPStack \<Rightarrow> 'rb TCPStack \<Rightarrow> bool" where
  "quiet good ts ts' \<longleftrightarrow> arrays ts' = arrays ts \<and> tgen ts' = tgen ts \<and> tlen ts' = tlen ts \<and>
     ipStack ts' = ipStack ts \<and> nextRef ts' = nextRef ts \<and> closers ts' = closers ts \<and>
     nextPort ts' = nextPort ts \<and> nextSID ts' = nextSID ts \<and> managers ts' = managers ts \<and>
     dom (normals ts') = dom (normals ts) \<and> dom (listeners ts') = dom (listeners ts) \<and>
     (socks_ok good ts \<longrightarrow> socks_ok good ts')"

lemma quiet_refl [simp]: "quiet good ts ts"
  by (simp add: quiet_def)

lemma quiet_trans: "quiet good ts ts' \<Longrightarrow> quiet good ts' ts'' \<Longrightarrow> quiet good ts ts''"
  by (simp add: quiet_def)

lemma quiet_deref: "quiet good ts ts' \<Longrightarrow> deref ts' p = deref ts p"
  by (cases p) (simp add: quiet_def deref_def)

lemma quiet_table: "quiet good ts ts' \<Longrightarrow> tbl ts' = tbl ts \<and> table_entries ts' = table_entries ts"
  by (simp add: quiet_def tbl_def table_entries_def)

lemma quiet_VFind: "quiet good ts ts' \<Longrightarrow> VFindTableEntry ts' = VFindTableEntry ts"
proof -
  assume q: "quiet good ts ts'"
  have g: "tgen ts' = tgen ts" using q by (simp add: quiet_def)
  have e: "table_entries ts' = table_entries ts" using quiet_table [OF q] by simp
  show ?thesis by (intro ext) (simp only: VFindTableEntry_def g e)
qed

lemma quiet_host_ok: "quiet good ts ts' \<Longrightarrow> host_ok good ts \<Longrightarrow> host_ok good ts'"
  using quiet_table [of good ts ts']
  by (simp add: host_ok_def quiet_def table_wf_def closers_ok_def refs_ok_def)

section \<open>The building blocks\<close>

lemma socket_of_safe: "r \<in> dom (normals ts) \<Longrightarrow> safe (\<lambda>s. normals ts r = Some s) (socket_of ts r)"
  by (auto simp: socket_of_def)

lemma put_socket_quiet:
  "r \<in> dom (normals ts) \<Longrightarrow> buffers_ok good s \<Longrightarrow> quiet good ts (put_socket r s ts)"
  by (auto simp: quiet_def put_socket_def socks_ok_def)

lemma sendPacket_safe:
  assumes "stack_ok (ipStack ts)" "marshals (e_lib env)"
  shows "safe (\<lambda>(err, ts'). \<exists>x. ts' = ts\<lparr>outbox := outbox ts @ [x]\<rparr>) (sendPacket env dst data ts)"
  unfolding sendPacket_def
  by (rule safe_mapG, rule safe_returns [OF SendIP_returns [OF assms]]) auto

lemma outbox_quiet [simp]: "quiet good ts (ts\<lparr>outbox := x\<rparr>)"
  by (simp add: quiet_def socks_ok_def)

lemma send_quiet_safe:
  assumes "stack_ok (ipStack ts)" "marshals (e_lib env)"
  shows "safe (quiet good ts) (send_quiet env dst h payload ts)"
  unfolding send_quiet_def
  by (rule safe_mapG, rule safe_mono [OF sendPacket_safe [OF assms]]) auto

lemma update_socket_safe:
  assumes "r \<in> dom (normals ts)" "socks_ok good ts" "\<And>s. buffers_ok good s \<Longrightarrow> buffers_ok good (f s)"
  shows "safe (quiet good ts) (update_socket r f ts)"
  unfolding update_socket_def
proof (rule safe_mapG, rule safe_mono [OF socket_of_safe [OF assms(1)]])
  fix s assume "normals ts r = Some s"
  with assms(2) have "buffers_ok good s" by (auto simp: socks_ok_def)
  then show "quiet good ts (put_socket r (f s) ts)"
    by (intro put_socket_quiet assms)
qed

lemma accept_push_safe:
  "lr \<in> dom (listeners ts) \<Longrightarrow> safe (quiet good ts) (accept_push lr r ts)"
  by (auto simp: accept_push_def quiet_def socks_ok_def)

section \<open>Assigning a state and deleting\<close>

definition valid :: "'rb TCPStack \<Rightarrow> entry_ptr \<Rightarrow> bool" where
  "valid ts p \<longleftrightarrow> (case p of (g, i) \<Rightarrow> g = tgen ts \<and> i < tlen ts)"

lemma VFind_valid: "slice_ok (tbl ts) \<Longrightarrow> VFindTableEntry ts la lp ra rp = Some p \<Longrightarrow> valid ts p"
  using VFind_Some [of ts la lp ra rp p] by (auto simp: valid_def)

lemma valid_in_table:
  "slice_ok (tbl ts) \<Longrightarrow> valid ts p \<Longrightarrow> deref ts p \<in> set (table_entries ts)"
  using table_entries_nth [of ts "snd p"] nth_mem [of "snd p" "table_entries ts"]
  by (cases p) (simp add: valid_def length_table_entries)

lemma quiet_valid: "quiet good ts ts' \<Longrightarrow> valid ts' p = valid ts p"
  by (cases p) (simp add: valid_def quiet_def)

lemma set_State_entries:
  assumes "slice_ok (tbl ts)"
  shows "table_entries (set_State (g, i) st ts) =
    (if g = tgen ts \<and> i < tlen ts then (table_entries ts)[i := (table_entries ts ! i)\<lparr>State := st\<rparr>]
     else table_entries ts)"
proof (cases "g = tgen ts \<and> i < tlen ts")
  case True
  with set_State_table [OF assms, of i st] show ?thesis by simp
next
  case False
  then show ?thesis by (auto simp: set_State_def table_entries_def tbl_def live_def)
qed

lemma set_State_fields [simp]:
  "tgen (set_State p st ts) = tgen ts" "tlen (set_State p st ts) = tlen ts"
  "normals (set_State p st ts) = normals ts" "listeners (set_State p st ts) = listeners ts"
  "ipStack (set_State p st ts) = ipStack ts" "nextRef (set_State p st ts) = nextRef ts"
  "closers (set_State p st ts) = closers ts" "outbox (set_State p st ts) = outbox ts"
  "nextPort (set_State p st ts) = nextPort ts" "nextSID (set_State p st ts) = nextSID ts"
  "managers (set_State p st ts) = managers ts"
  by (cases p; simp add: set_State_def)+

lemma set_State_arrays: "length (arrays (set_State p st ts) g) = length (arrays ts g)"
  by (cases p) (simp add: set_State_def)

lemma set_State_deref: "snd p < length (arrays ts (fst p)) \<Longrightarrow>
  deref (set_State p st ts) p = (deref ts p)\<lparr>State := st\<rparr>"
  by (cases p) (simp add: set_State_def deref_def)

lemma valid_bound: "slice_ok (tbl ts) \<Longrightarrow> valid ts p \<Longrightarrow> snd p < length (arrays ts (fst p))"
  by (cases p) (simp add: valid_def slice_ok_def tbl_def)

lemma set_State_wf: "table_wf ts \<Longrightarrow> table_wf (set_State p st ts)"
proof -
  assume wf: "table_wf ts"
  obtain g i where p: "p = (g, i)" by (cases p)
  have "slice_ok (tbl (set_State p st ts))"
    using wf by (simp add: table_wf_def slice_ok_def tbl_def set_State_arrays)
  moreover have "map SocketStruct (xs[i := (xs ! i)\<lparr>State := st\<rparr>]) = map SocketStruct xs"
    for xs :: "TCPTableEntry list"
  proof (cases "i < length xs")
    case True
    then have "SocketStruct ((xs ! i)\<lparr>State := st\<rparr>) = map SocketStruct xs ! i" by simp
    then show ?thesis by (simp only: map_update list_update_id)
  qed (simp add: list_update_beyond)
  ultimately show ?thesis
    using wf set_State_entries [of ts g i st] by (simp add: table_wf_def p)
qed

lemma set_State_closers: "closers_ok ts \<Longrightarrow> closers_ok (set_State p st ts)"
  by (simp add: closers_ok_def set_State_arrays)

lemma host_ok_entry:
  "host_ok good ts \<Longrightarrow> valid ts p \<Longrightarrow> entry_ok (dom (normals ts)) (dom (listeners ts)) (deref ts p)"
  using valid_in_table [of ts p] by (simp add: host_ok_def table_wf_def)

lemma set_State_host_ok:
  assumes "host_ok good ts" "valid ts p" "SocketStruct (deref ts p) = NormalRef r" "st \<noteq> TCP_LISTEN"
  shows "host_ok good (set_State p st ts)"
proof -
  obtain g i where p: "p = (g, i)" by (cases p)
  have ok: "slice_ok (tbl ts)" using assms(1) by (simp add: host_ok_def table_wf_def)
  have d: "deref ts p = table_entries ts ! i"
    using assms(2) table_entries_nth [OF ok] by (simp add: p valid_def)
  have "entry_ok (dom (normals ts)) (dom (listeners ts)) ((deref ts p)\<lparr>State := st\<rparr>)"
    using host_ok_entry [OF assms(1,2)] assms(3,4) by (simp add: entry_ok_def)
  moreover have "set (table_entries (set_State p st ts)) \<subseteq>
      insert ((deref ts p)\<lparr>State := st\<rparr>) (set (table_entries ts))"
    using set_State_entries [OF ok, of g i st] set_update_subset_insert [of "table_entries ts" i] assms(2)
    by (simp add: p [symmetric] d) (simp add: p valid_def)
  ultimately show ?thesis
    using assms(1) set_State_wf [of ts p st] set_State_closers [of ts p st]
    by (auto simp: host_ok_def socks_ok_def refs_ok_def)
qed

text \<open>
  \<open>entry.State = TCP_CLOSED; VDeleteTableEntry(*entry)\<close> through any pointer that was valid once:
  what is left are entries of the old table.
\<close>

definition close_at :: "entry_ptr \<Rightarrow> 'rb TCPStack \<Rightarrow> 'rb TCPStack go" where
  "close_at p ts = VDeleteTableEntry (deref (set_State p TCP_CLOSED ts) p) (set_State p TCP_CLOSED ts)"

text \<open>Everything but the table and its arrays.\<close>

definition rest_same :: "'rb TCPStack \<Rightarrow> 'rb TCPStack \<Rightarrow> bool" where
  "rest_same ts ts' \<longleftrightarrow> tgen ts' = tgen ts \<and> normals ts' = normals ts \<and> listeners ts' = listeners ts \<and>
     ipStack ts' = ipStack ts \<and> nextRef ts' = nextRef ts \<and> closers ts' = closers ts \<and>
     outbox ts' = outbox ts \<and> nextPort ts' = nextPort ts \<and> nextSID ts' = nextSID ts \<and> managers ts' = managers ts"

lemma delete_loop_length:
  "delete_loop e is sl = Ret sl' \<Longrightarrow> slice_ok sl \<Longrightarrow> length (arr sl') = length (arr sl) \<and> slice_ok sl'"
proof (induction "is" arbitrary: sl)
  case (Cons i "is")
  then obtain sl1 where one: "delete_visit e i sl = Ret sl1" "delete_loop e is sl1 = Ret sl'"
    by (auto simp: bindG_eq_Ret)
  then have "length (arr sl1) = length (arr sl) \<and> slice_ok sl1"
    using Cons.prems(2) by (auto simp: delete_visit_def Let_def slice_ok_delete split: if_splits)
  with Cons.IH [OF one(2)] show ?case by simp
qed simp

lemma close_at_ex:
  assumes "table_wf ts"
  shows "\<exists>ts'. close_at p ts = Ret ts' \<and> table_wf ts' \<and> rest_same ts ts' \<and>
    (\<forall>g. length (arrays ts' g) = length (arrays ts g)) \<and>
    table_entries ts' = filter (\<lambda>x. x \<noteq> deref (set_State p TCP_CLOSED ts) p) (table_entries (set_State p TCP_CLOSED ts))"
proof -
  let ?ts = "set_State p TCP_CLOSED ts"
  have wf: "table_wf ?ts" by (rule set_State_wf [OF assms])
  obtain sl where sl: "close_at p ts = Ret (set_tbl sl ?ts)" "slice_ok sl"
    "live sl = filter (\<lambda>x. x \<noteq> deref ?ts p) (table_entries ?ts)"
    using VDelete_ex [OF wf, of "deref ?ts p"] by (auto simp: close_at_def)
  have "delete_loop (deref ?ts p) [0..<tlen ?ts] (tbl ?ts) = Ret sl"
    using sl(1) unfolding close_at_def VDeleteTableEntry_def mapG_eq_Ret
    by (metis set_tbl_entries(2))
  then have "length (arr sl) = length (arr (tbl ?ts))"
    using delete_loop_length wf by (simp add: table_wf_def)
  then have "length (arrays (set_tbl sl ?ts) g) = length (arrays ts g)" for g
    by (simp add: set_tbl_def tbl_def set_State_arrays)
  moreover have "table_wf (set_tbl sl ?ts)"
    using wf sl by (simp add: table_wf_def distinct_map_filter)
  moreover have "rest_same ts (set_tbl sl ?ts)" by (simp add: rest_same_def set_tbl_def)
  ultimately show ?thesis using sl by (intro exI [of _ "set_tbl sl ?ts"]) simp
qed

lemma close_at_subset:
  assumes "slice_ok (tbl ts)" "snd p < length (arrays ts (fst p))"
  shows "set (filter (\<lambda>x. x \<noteq> deref (set_State p TCP_CLOSED ts) p) (table_entries (set_State p TCP_CLOSED ts)))
    \<subseteq> set (table_entries ts)"
proof -
  obtain g i where p: "p = (g, i)" by (cases p)
  show ?thesis
  proof (cases "g = tgen ts \<and> i < tlen ts")
    case True
    then have "deref (set_State p TCP_CLOSED ts) p = (table_entries ts ! i)\<lparr>State := TCP_CLOSED\<rparr>"
      using set_State_deref [OF assms(2)] table_entries_nth [OF assms(1)] by (simp add: p)
    with True show ?thesis
      using set_State_entries [OF assms(1), of g i] set_update_subset_insert [of "table_entries ts" i]
      by (auto simp: p)
  qed (use set_State_entries [OF assms(1), of g i] in \<open>auto simp: p\<close>)
qed

lemma close_at_host_ok:
  assumes "host_ok good ts" "snd p < length (arrays ts (fst p))"
  shows "\<exists>ts'. close_at p ts = Ret ts' \<and> host_ok good ts' \<and> rest_same ts ts' \<and>
    set (table_entries ts') \<subseteq> set (table_entries ts)"
proof -
  have wf: "table_wf ts" "slice_ok (tbl ts)" using assms(1) by (simp_all add: host_ok_def table_wf_def)
  obtain ts' where ts': "close_at p ts = Ret ts'" "table_wf ts'" "rest_same ts ts'"
    "\<forall>g. length (arrays ts' g) = length (arrays ts g)" "set (table_entries ts') \<subseteq> set (table_entries ts)"
    using close_at_ex [OF wf(1), of p] close_at_subset [OF wf(2) assms(2)] by metis
  have "closers_ok ts'" "socks_ok good ts'" "refs_ok ts'" "stack_ok (ipStack ts')"
    using assms(1) ts'(3,4) by (auto simp: host_ok_def closers_ok_def socks_ok_def refs_ok_def rest_same_def)
  moreover have "\<forall>e \<in> set (table_entries ts'). entry_ok (dom (normals ts')) (dom (listeners ts')) e"
    using assms(1) ts'(3,5) by (auto simp: host_ok_def rest_same_def)
  ultimately show ?thesis using ts' unfolding host_ok_def by blast
qed

section \<open>The handlers\<close>

text \<open>
  What a handler may do on a well-formed host to the entry \<open>p\<close> it was given: \<open>moved\<close> says that the
  entry's state is now \<open>st\<close> and that all else is as \<open>quiet\<close> says.
\<close>

definition moved :: "('rb \<Rightarrow> bool) \<Rightarrow> entry_ptr \<Rightarrow> TCPState \<Rightarrow> 'rb TCPStack \<Rightarrow> 'rb TCPStack \<Rightarrow> bool" where
  "moved good p st ts ts' \<longleftrightarrow> quiet good (set_State p st ts) ts'"

text \<open>The hypotheses every handler lemma shares.\<close>

definition ready :: "'rb tcp_env \<Rightarrow> ('rb \<Rightarrow> bool) \<Rightarrow> ('rb \<Rightarrow> byte list) \<Rightarrow> ('rb \<Rightarrow> nat) \<Rightarrow> entry_ptr \<Rightarrow> nat \<Rightarrow> 'rb TCPStack \<Rightarrow> bool" where
  "ready env good content cap p r ts \<longleftrightarrow> env_ok env good content cap \<and> host_ok good ts \<and> valid ts p \<and>
     SocketStruct (deref ts p) = NormalRef r"

lemma readyD:
  assumes "ready env good content cap p r ts"
  shows "env_ok env good content cap" "host_ok good ts" "valid ts p" "r \<in> dom (normals ts)"
    "normal_ref (SocketStruct (deref ts p)) = Ret r" "stack_ok (ipStack ts)" "marshals (e_lib env)"
    "socks_ok good ts" "State (deref ts p) \<noteq> TCP_LISTEN" "SocketStruct (deref ts p) = NormalRef r"
    "slice_ok (tbl ts)"
  using assms host_ok_entry [of good ts p]
  by (simp_all add: ready_def host_ok_def env_ok_def normal_ref_def entry_ok_def table_wf_def)

lemma ready_quiet:
  "ready env good content cap p r ts \<Longrightarrow> quiet good ts ts' \<Longrightarrow> ready env good content cap p r ts'"
  using quiet_host_ok [of good ts ts'] quiet_valid [of good ts ts' p] quiet_deref [of good ts ts' p]
  by (simp add: ready_def)

lemma ready_set_State:
  assumes "ready env good content cap p r ts" "st \<noteq> TCP_LISTEN"
  shows "ready env good content cap p r (set_State p st ts)"
    "deref (set_State p st ts) p = (deref ts p)\<lparr>State := st\<rparr>"
proof -
  show d: "deref (set_State p st ts) p = (deref ts p)\<lparr>State := st\<rparr>"
    using set_State_deref valid_bound [OF readyD(11,3) [OF assms(1)]] .
  show "ready env good content cap p r (set_State p st ts)"
    using assms set_State_host_ok [OF readyD(2,3,10) [OF assms(1)] assms(2)] d
    by (cases p) (simp add: ready_def valid_def)
qed

lemma ready_moved:
  "ready env good content cap p r ts \<Longrightarrow> st \<noteq> TCP_LISTEN \<Longrightarrow> moved good p st ts ts' \<Longrightarrow>
   ready env good content cap p r ts'"
  unfolding moved_def using ready_set_State(1) ready_quiet by blast

lemma buffers_ok_so_snd: "buffers_ok good s \<Longrightarrow> snd_buf x = snd_buf (so_snd s) \<Longrightarrow> buffers_ok good (s\<lparr>so_snd := x\<rparr>)"
  by (simp add: buffers_ok_def)

lemma buffers_ok_so_rcv: "buffers_ok good s \<Longrightarrow> good (rcv_buf x) \<Longrightarrow> buffers_ok good (s\<lparr>so_rcv := x\<rparr>)"
  by (simp add: buffers_ok_def)

lemma snd_buf_simps [simp]: "snd_buf (reset_rto t s) = snd_buf s" "snd_buf (stop_rto s) = snd_buf s"
  "snd_buf (rearm t s) = snd_buf s" "snd_buf (accept_ack t h s) = snd_buf s"
  by (simp_all add: reset_rto_def stop_rto_def rearm_def accept_ack_def)

lemma socks_okD: "socks_ok good ts \<Longrightarrow> normals ts r = Some s \<Longrightarrow> buffers_ok good s"
  by (auto simp: socks_ok_def)

lemma send_put_safe:
  assumes "ready env good content cap p r ts" "buffers_ok good s"
  shows "safe (quiet good ts) (send_quiet env dst h payload (put_socket r s ts))"
proof -
  have q: "quiet good ts (put_socket r s ts)" using put_socket_quiet [OF readyD(4) [OF assms(1)] assms(2)] .
  show ?thesis
    by (rule safe_mono [OF send_quiet_safe [of "put_socket r s ts" env good]])
       (use readyD(6,7) [OF assms(1)] quiet_trans [OF q] in \<open>simp_all add: put_socket_def\<close>)
qed

lemma update_ready:
  assumes "ready env good content cap p r ts" "\<And>s. buffers_ok good s \<Longrightarrow> buffers_ok good (f s)"
  shows "safe (quiet good ts) (update_socket r f ts)"
  by (rule update_socket_safe [OF readyD(4,8) [OF assms(1)] assms(2)])

lemma write_safe:
  assumes "env_ok env good content cap" "good b"
  shows "safe (\<lambda>(n, err, b'). good b' \<and> err = None \<and> n = length bs \<and> content b' = content b @ bs \<and> cap b' = cap b)
    (rb_Write (e_rb env) b bs)"
proof -
  have "if length bs \<le> cap b - length (content b)
    then \<exists>b'. rb_Write (e_rb env) b bs = Ret (length bs, None, b') \<and> good b' \<and>
      content b' = content b @ bs \<and> cap b' = cap b
    else rb_Write (e_rb env) b bs = Block"
    using env_okD(3) [OF assms(1)] assms(2) unfolding rb_laws_def by blast
  then show ?thesis by (auto split: if_splits)
qed

lemma drain_early_safe:
  "env_ok env good content cap \<Longrightarrow> good (rcv_buf s) \<Longrightarrow> safe (\<lambda>s'. good (rcv_buf s')) (drain_early (e_rb env) s)"
proof (induction "e_rb env" s rule: drain_early.induct)
  case (1 s)
  show ?case
  proof (cases "findNextSequence (earlyData s) (rcv_NXT s)")
    case None
    then show ?thesis using "1.prems" by (simp add: drain_early.simps)
  next
    case (Some e)
    show ?thesis
    proof (cases "rb_Write (e_rb env) (rcv_buf s) (ed_data e)")
      case (Ret x)
      with write_safe [OF "1.prems", of "ed_data e"] obtain b' where x: "x = (length (ed_data e), None, b')" "good b'"
        by (cases x) auto
      with Some Ret show ?thesis
        using "1.hyps" [OF Some Ret] "1.prems"(1) by (subst drain_early.simps) simp
    qed (use Some write_safe [OF "1.prems", of "ed_data e"] in \<open>simp_all add: drain_early.simps\<close>)
  qed
qed

lemma set_State_same [simp]: "set_State p (State (deref ts p)) ts = ts"
  by (cases p) (simp add: set_State_def deref_def)

lemma moved_same: "st = State (deref ts p) \<Longrightarrow> moved good p st ts ts' \<longleftrightarrow> quiet good ts ts'"
  by (simp add: moved_def)

lemma processInOrderData_safe:
  assumes "ready env good content cap p r ts"
  shows "safe (quiet good ts) (processInOrderData env r payload ts)"
  unfolding processInOrderData_def
proof (rule safe_bind [OF socket_of_safe [OF readyD(4) [OF assms]]])
  fix s assume s: "normals ts r = Some s"
  have b: "buffers_ok good s" using socks_okD [OF readyD(8) [OF assms] s] .
  then have g: "good (rcv_buf (so_rcv s))" by (simp add: buffers_ok_def)
  show "safe (quiet good ts) (bindG (rb_Write (e_rb env) (rcv_buf (so_rcv s)) payload) (\<lambda>(n, err, buf).
      let rc = (so_rcv s)\<lparr>rcv_buf := buf\<rparr>
      in if err \<noteq> None then Ret (put_socket r (s\<lparr>so_rcv := rc\<rparr>) ts)
         else bindG (drain_early (e_rb env) (rc\<lparr>rcv_NXT := rcv_NXT rc + word_of_nat n\<rparr>)) (\<lambda>rc.
           let rc = rc\<lparr>rcv_WND := word_of_nat (rb_Free (e_rb env) (rcv_buf rc))\<rparr>;
               ackHeader = make_header (ns_LocalPort s) (ns_RemotePort s) (snd_NXT (so_snd s))
                 (rcv_NXT rc) TCP_ACK (rcv_WND rc)
           in send_quiet env (ns_RemoteAddress s) ackHeader [] (put_socket r (s\<lparr>so_rcv := rc\<rparr>) ts))))"
  proof (rule safe_bind [OF write_safe [OF readyD(1) [OF assms] g]], clarsimp simp: Let_def)
    fix buf assume "good buf"
    then have "good (rcv_buf ((so_rcv s)\<lparr>rcv_buf := buf, rcv_NXT := rcv_NXT (so_rcv s) + word_of_nat (length payload)\<rparr>))"
      by simp
    from drain_early_safe [OF readyD(1) [OF assms] this]
    show "safe (quiet good ts)
       (bindG (drain_early (e_rb env) ((so_rcv s)\<lparr>rcv_buf := buf, rcv_NXT := rcv_NXT (so_rcv s) + word_of_nat (length payload)\<rparr>))
         (\<lambda>rc. send_quiet env (ns_RemoteAddress s)
            (make_header (ns_LocalPort s) (ns_RemotePort s) (snd_NXT (so_snd s)) (rcv_NXT rc) TCP_ACK
              (word_of_nat (rb_Free (e_rb env) (rcv_buf rc)))) []
            (put_socket r (s\<lparr>so_rcv := rc\<lparr>rcv_WND := word_of_nat (rb_Free (e_rb env) (rcv_buf rc))\<rparr>\<rparr>) ts)))"
      by (rule safe_bind) (intro send_put_safe [OF assms] buffers_ok_so_rcv [OF b], simp)
  qed
qed

lemma handleData_safe:
  assumes "ready env good content cap p r ts"
  shows "safe (quiet good ts) (handleData env p h payload ts)"
  unfolding handleData_def Let_def readyD(5) [OF assms] bindG.simps
proof (rule safe_bind [OF socket_of_safe [OF readyD(4) [OF assms]]])
  fix s assume s: "normals ts r = Some s"
  have b: "buffers_ok good s" using socks_okD [OF readyD(8) [OF assms] s] .
  show "safe (quiet good ts) (if SeqNum h = rcv_NXT (so_rcv s) then processInOrderData env r payload ts
     else send_quiet env (RemoteAddress (deref ts p))
       (make_header (LocalPort (deref ts p)) (RemotePort (deref ts p)) (snd_NXT (so_snd s))
         (rcv_NXT ((so_rcv s)\<lparr>earlyData := earlyData (so_rcv s) @
            [\<lparr>ed_data = payload, ed_SeqNum = SeqNum h, ed_Length = word_of_nat (length payload)\<rparr>]\<rparr>))
         TCP_ACK
         (rcv_WND ((so_rcv s)\<lparr>earlyData := earlyData (so_rcv s) @
            [\<lparr>ed_data = payload, ed_SeqNum = SeqNum h, ed_Length = word_of_nat (length payload)\<rparr>]\<rparr>))) []
       (put_socket r (s\<lparr>so_rcv := (so_rcv s)\<lparr>earlyData := earlyData (so_rcv s) @
            [\<lparr>ed_data = payload, ed_SeqNum = SeqNum h, ed_Length = word_of_nat (length payload)\<rparr>]\<rparr>\<rparr>) ts))"
    using processInOrderData_safe [OF assms] send_put_safe [OF assms] b
    by (simp add: buffers_ok_def)
qed

lemma handleEstablishedPacket_safe:
  assumes "ready env good content cap p r ts"
  shows "safe (quiet good ts) (handleEstablishedPacket env p h payload ts)"
  unfolding handleEstablishedPacket_def readyD(5) [OF assms] bindG.simps
proof (rule safe_bind [OF update_ready [OF assms]])
  fix ts1 assume q1: "quiet good ts ts1"
  note r1 = ready_quiet [OF assms q1]
  show "safe (quiet good ts) (bindG (if payload \<noteq> [] then handleData env p h payload ts1 else Ret ts1)
      (update_socket r (\<lambda>s. s\<lparr>so_snd := accept_ack (e_now env) h (so_snd s)\<rparr>)))"
  proof (rule safe_bind)
    show "safe (quiet good ts1) (if payload \<noteq> [] then handleData env p h payload ts1 else Ret ts1)"
      using handleData_safe [OF r1] by simp
  next
    fix ts2 assume q2: "quiet good ts1 ts2"
    show "safe (quiet good ts) (update_socket r (\<lambda>s. s\<lparr>so_snd := accept_ack (e_now env) h (so_snd s)\<rparr>) ts2)"
      by (rule safe_mono [OF update_ready [OF ready_quiet [OF r1 q2], where f = "\<lambda>s. s\<lparr>so_snd := accept_ack (e_now env) h (so_snd s)\<rparr>"]])
         (use quiet_trans [OF q1 quiet_trans [OF q2]] in \<open>auto simp: buffers_ok_def\<close>)
  qed
qed (simp add: buffers_ok_def)

lemma handleSYNACK_safe:
  assumes "ready env good content cap p r ts"
  shows "safe (moved good p TCP_ESTABLISHED ts) (handleSYNACK env p h ts)"
  unfolding handleSYNACK_def Let_def readyD(5) [OF assms] bindG.simps moved_def
proof (rule safe_bind [OF socket_of_safe [OF readyD(4) [OF assms]]])
  fix s assume s: "normals ts r = Some s"
  have b: "buffers_ok good s" using socks_okD [OF readyD(8) [OF assms] s] .
  show "safe (quiet good (set_State p TCP_ESTABLISHED ts)) (send_quiet env (RemoteAddress (deref ts p)) hd []
      (put_socket r (s\<lparr>ns_AckNum := a, so_rcv := (so_rcv s)\<lparr>IRS := i, rcv_NXT := n\<rparr>,
         so_snd := (stop_rto ((so_snd s)\<lparr>UNA := u, snd_NXT := v, snd_WND := w\<rparr>))\<lparr>inFlightPackets := []\<rparr>,
         establishedChan := False\<rparr>) (set_State p TCP_ESTABLISHED ts)))" for hd a i n u v w
    by (rule send_put_safe [OF ready_set_State(1) [OF assms]]) (use b in \<open>simp_all add: buffers_ok_def\<close>)
qed

lemma listen_entry:
  assumes "host_ok good ts" "valid ts p" "State (deref ts p) = TCP_LISTEN"
  shows "\<exists>lr. listen_ref (SocketStruct (deref ts p)) = Ret lr \<and> lr \<in> dom (listeners ts)"
  using host_ok_entry [OF assms(1,2)] assms(3)
  by (auto simp: entry_ok_def listen_ref_def split: Socket.splits)

lemma notify_parent_safe:
  assumes "host_ok good ts"
  shows "safe (quiet good ts)
    (case VFindTableEntry ts la lp ra rp of
       Some parent \<Rightarrow>
         if State (deref ts parent) = TCP_LISTEN
         then bindG (listen_ref (SocketStruct (deref ts parent))) (\<lambda>lr. accept_push lr r ts)
         else Ret ts
     | None \<Rightarrow> Ret ts)"
proof (cases "VFindTableEntry ts la lp ra rp")
  case (Some parent)
  have "valid ts parent"
    using VFind_valid [OF _ Some] assms by (simp add: host_ok_def table_wf_def)
  then have "safe (quiet good ts) (bindG (listen_ref (SocketStruct (deref ts parent))) (\<lambda>lr. accept_push lr r ts))"
    if "State (deref ts parent) = TCP_LISTEN"
    using listen_entry [OF assms _ that] accept_push_safe [of _ ts good r] by fastforce
  then show ?thesis by (simp add: Some)
qed simp

lemma handleACK_safe:
  assumes "ready env good content cap p r ts"
  shows "safe (moved good p TCP_ESTABLISHED ts) (handleACK env p h ts)"
  unfolding handleACK_def Let_def readyD(5) [OF assms] bindG.simps moved_def
proof (rule safe_bind [OF update_ready [OF ready_set_State(1) [OF assms]]])
  fix ts1 assume q1: "quiet good (set_State p TCP_ESTABLISHED ts) ts1"
  have "ready env good content cap p r (set_State p TCP_ESTABLISHED ts)"
    by (rule ready_set_State [OF assms]) simp
  note r1 = ready_quiet [OF this q1]
  show "safe (quiet good (set_State p TCP_ESTABLISHED ts)) (bindG
      (case VFindTableEntry ts1 (LocalAddress (deref ts p)) (LocalPort (deref ts p)) NoAddr 0 of
         Some parent \<Rightarrow>
           if State (deref ts1 parent) = TCP_LISTEN
           then bindG (listen_ref (SocketStruct (deref ts1 parent))) (\<lambda>lr. accept_push lr r ts1)
           else Ret ts1
       | None \<Rightarrow> Ret ts1)
      (update_socket r (\<lambda>s. s\<lparr>so_snd := rearm (e_now env) (cleanUpInFlightPackets (e_now env) h (so_snd s))\<rparr>)))"
  proof (rule safe_bind [OF notify_parent_safe [OF readyD(2) [OF r1]]])
    fix ts2 assume q2: "quiet good ts1 ts2"
    show "safe (quiet good (set_State p TCP_ESTABLISHED ts))
        (update_socket r (\<lambda>s. s\<lparr>so_snd := rearm (e_now env) (cleanUpInFlightPackets (e_now env) h (so_snd s))\<rparr>) ts2)"
      by (rule safe_mono [OF update_ready [OF ready_quiet [OF r1 q2]]])
         (use quiet_trans [OF q1 quiet_trans [OF q2]] in \<open>auto simp: buffers_ok_def\<close>)
  qed
qed (simp_all add: buffers_ok_def)

definition fin_state :: "TCPState \<Rightarrow> TCPState" where
  "fin_state st = (if st = TCP_ESTABLISHED then TCP_CLOSE_WAIT
     else if st = TCP_FIN_WAIT_2 then TCP_TIME_WAIT else st)"

text \<open>\<open>moved\<close>, up to a goroutine that will close the entry.\<close>

definition moved_closing ::
  "('rb \<Rightarrow> bool) \<Rightarrow> Time \<Rightarrow> entry_ptr \<Rightarrow> TCPState \<Rightarrow> 'rb TCPStack \<Rightarrow> 'rb TCPStack \<Rightarrow> bool" where
  "moved_closing good t p st ts ts' \<longleftrightarrow> (\<exists>ts1. moved good p (fin_state st) ts ts1 \<and>
     ts' = (if st = TCP_FIN_WAIT_2 then ts1\<lparr>closers := closers ts1 @ [(t + 2 * MSL, p)]\<rparr> else ts1))"

lemma closer_ready:
  assumes "ready env good content cap p r ts"
  shows "ready env good content cap p r (ts\<lparr>closers := closers ts @ [(t, p)]\<rparr>)"
proof -
  have b: "snd p < length (arrays ts (fst p))" using valid_bound [OF readyD(11,3) [OF assms]] .
  have "closers_ok (ts\<lparr>closers := closers ts @ [(t, p)]\<rparr>)"
    using readyD(2,3) [OF assms] b by (auto simp: host_ok_def closers_ok_def valid_def)
  moreover have "tbl (ts\<lparr>closers := x\<rparr>) = tbl ts" "table_entries (ts\<lparr>closers := x\<rparr>) = table_entries ts"
    "deref (ts\<lparr>closers := x\<rparr>) p = deref ts p" for x
    by (cases p; simp add: tbl_def table_entries_def deref_def)+
  ultimately show ?thesis
    using assms by (cases p) (simp add: ready_def host_ok_def table_wf_def socks_ok_def refs_ok_def valid_def)
qed

lemma ready_moved_closing:
  assumes "ready env good content cap p r ts" "moved_closing good t p st ts ts'" "st \<noteq> TCP_LISTEN"
  shows "ready env good content cap p r ts'"
proof -
  obtain ts1 where m: "moved good p (fin_state st) ts ts1"
    and ts': "ts' = (if st = TCP_FIN_WAIT_2 then ts1\<lparr>closers := closers ts1 @ [(t + 2 * MSL, p)]\<rparr> else ts1)"
    using assms(2) unfolding moved_closing_def by blast
  have r1: "ready env good content cap p r ts1"
    by (rule ready_moved [OF assms(1) _ m]) (use assms(3) in \<open>auto simp: fin_state_def\<close>)
  from closer_ready [OF r1, of "t + 2 * MSL"] r1 show ?thesis by (simp add: ts')
qed

lemma handleFIN_safe:
  assumes "ready env good content cap p r ts"
  shows "safe (moved_closing good (e_now env) p (State (deref ts p)) ts) (handleFIN env p h ts)"
  unfolding handleFIN_def Let_def readyD(5) [OF assms] bindG.simps
proof (rule safe_bind [OF socket_of_safe [OF readyD(4) [OF assms]]])
  fix s assume s: "normals ts r = Some s"
  have b: "buffers_ok good s" using socks_okD [OF readyD(8) [OF assms] s] .
  let ?st = "State (deref ts p)"
  let ?finish = "\<lambda>ts. Ret (if State (deref (if State (deref ts p) = TCP_ESTABLISHED then set_State p TCP_CLOSE_WAIT ts else ts) p) = TCP_FIN_WAIT_2
      then set_State p TCP_TIME_WAIT (if State (deref ts p) = TCP_ESTABLISHED then set_State p TCP_CLOSE_WAIT ts else ts)
        \<lparr>closers := closers (if State (deref ts p) = TCP_ESTABLISHED then set_State p TCP_CLOSE_WAIT ts else ts) @ [(e_now env + 2 * MSL, p)]\<rparr>
      else if State (deref ts p) = TCP_ESTABLISHED then set_State p TCP_CLOSE_WAIT ts else ts)"
  have fin: "safe (moved_closing good (e_now env) p ?st ts) (?finish ts2)" if q2: "quiet good ts ts2" for ts2
  proof -
    note r2 = ready_quiet [OF assms q2]
    have m: "moved good p st ts (set_State p st ts2)" for st
      using q2 by (cases p) (simp add: moved_def quiet_def set_State_def socks_ok_def)
    have d: "State (deref ts2 p) = ?st" using quiet_deref [OF q2] by simp
    show ?thesis
      using m [of "fin_state ?st"] q2 d ready_set_State(2) [OF r2, of TCP_CLOSE_WAIT]
      by (auto simp: moved_closing_def fin_state_def moved_same)
  qed
  show "safe (moved_closing good (e_now env) p ?st ts) (bindG
      (send_quiet env (RemoteAddress (deref ts p))
        (make_header (LocalPort (deref ts p)) (RemotePort (deref ts p)) (snd_NXT (so_snd s))
          (rcv_NXT ((so_rcv s)\<lparr>rcv_NXT := SeqNum h + 1, rcv_WND := WindowSize h\<rparr>)) TCP_ACK
          (rcv_WND ((so_rcv s)\<lparr>rcv_NXT := SeqNum h + 1, rcv_WND := WindowSize h\<rparr>))) []
        (put_socket r (s\<lparr>so_rcv := (so_rcv s)\<lparr>rcv_NXT := SeqNum h + 1, rcv_WND := WindowSize h\<rparr>\<rparr>) ts))
      (\<lambda>ts. bindG (update_socket r (\<lambda>s. s\<lparr>so_snd := cleanUpInFlightPackets (e_now env) h (so_snd s)\<rparr>) ts) ?finish))"
  proof (rule safe_bind [OF send_put_safe [OF assms]])
    fix ts1 assume q1: "quiet good ts ts1"
    show "safe (moved_closing good (e_now env) p ?st ts)
        (bindG (update_socket r (\<lambda>s. s\<lparr>so_snd := cleanUpInFlightPackets (e_now env) h (so_snd s)\<rparr>) ts1) ?finish)"
      by (rule safe_bind [OF update_ready [OF ready_quiet [OF assms q1]]])
         (simp add: buffers_ok_def, rule fin, rule quiet_trans [OF q1])
  qed (use b in \<open>simp add: buffers_ok_def\<close>)
qed

definition closing_state :: "TCPState \<Rightarrow> TCPState" where
  "closing_state st = (if st = TCP_FIN_WAIT_1 then TCP_FIN_WAIT_2 else st)"

text \<open>An acknowledgement while closing: the next state, or the end of the connection.\<close>

definition acked_closing :: "('rb \<Rightarrow> bool) \<Rightarrow> entry_ptr \<Rightarrow> 'rb TCPStack \<Rightarrow> 'rb TCPStack \<Rightarrow> bool" where
  "acked_closing good p ts ts' \<longleftrightarrow>
     (if State (deref ts p) = TCP_LAST_ACK then \<exists>ts1. quiet good ts ts1 \<and> close_at p ts1 = Ret ts'
      else moved good p (closing_state (State (deref ts p))) ts ts')"

lemma handleClosingACK_safe:
  assumes "ready env good content cap p r ts"
  shows "safe (acked_closing good p ts) (handleClosingACK env p h ts)"
  unfolding handleClosingACK_def Let_def readyD(5) [OF assms] bindG.simps
proof (rule safe_bind [OF update_ready [OF assms]])
  fix ts1 assume q1: "quiet good ts ts1"
  note r1 = ready_quiet [OF assms q1]
  have d: "deref ts1 p = deref ts p" using quiet_deref [OF q1] .
  have d2: "State (deref (set_State p TCP_FIN_WAIT_2 ts1) p) = TCP_FIN_WAIT_2"
    using ready_set_State(2) [OF r1, of TCP_FIN_WAIT_2] by simp
  have m: "moved good p TCP_FIN_WAIT_2 ts (set_State p TCP_FIN_WAIT_2 ts1)"
    using q1 by (cases p) (simp add: moved_def quiet_def set_State_def socks_ok_def)
  obtain ts2 where close: "close_at p ts1 = Ret ts2"
    using close_at_host_ok [OF readyD(2) [OF r1] valid_bound [OF readyD(11,3) [OF r1]]] by blast
  consider "State (deref ts p) = TCP_FIN_WAIT_1" | "State (deref ts p) = TCP_LAST_ACK"
    | "State (deref ts p) \<noteq> TCP_FIN_WAIT_1" "State (deref ts p) \<noteq> TCP_LAST_ACK" by blast
  then show "safe (acked_closing good p ts)
      (if State (deref (if State (deref ts1 p) = TCP_FIN_WAIT_1 then set_State p TCP_FIN_WAIT_2 ts1 else ts1) p) = TCP_LAST_ACK
       then VDeleteTableEntry (deref (set_State p TCP_CLOSED (if State (deref ts1 p) = TCP_FIN_WAIT_1
              then set_State p TCP_FIN_WAIT_2 ts1 else ts1)) p)
            (set_State p TCP_CLOSED (if State (deref ts1 p) = TCP_FIN_WAIT_1 then set_State p TCP_FIN_WAIT_2 ts1 else ts1))
       else Ret (if State (deref ts1 p) = TCP_FIN_WAIT_1 then set_State p TCP_FIN_WAIT_2 ts1 else ts1))"
  proof cases
    case 1
    then show ?thesis using m d d2 by (simp add: acked_closing_def closing_state_def)
  next
    case 2
    then show ?thesis using close q1 d by (auto simp: acked_closing_def close_at_def)
  next
    case 3
    then show ?thesis using q1 d by (simp add: acked_closing_def closing_state_def moved_same)
  qed
qed (simp add: buffers_ok_def)

lemma acked_closing_host_ok:
  assumes "ready env good content cap p r ts" "acked_closing good p ts ts'"
  shows "host_ok good ts'"
proof (cases "State (deref ts p) = TCP_LAST_ACK")
  case True
  then obtain ts1 where q1: "quiet good ts ts1" and c: "close_at p ts1 = Ret ts'"
    using assms(2) by (auto simp: acked_closing_def)
  note r1 = ready_quiet [OF assms(1) q1]
  show ?thesis
    using close_at_host_ok [OF readyD(2) [OF r1] valid_bound [OF readyD(11,3) [OF r1]]] c by auto
next
  case False
  then have m: "moved good p (closing_state (State (deref ts p))) ts ts'"
    using assms(2) by (simp add: acked_closing_def)
  have "ready env good content cap p r ts'"
    by (rule ready_moved [OF assms(1) _ m]) (use readyD(9) [OF assms(1)] in \<open>simp add: closing_state_def\<close>)
  then show ?thesis by (rule readyD(2))
qed

lemma handleRST_safe:
  assumes "host_ok good ts" "valid ts p"
  shows "safe (\<lambda>ts'. close_at p ts = Ret ts' \<and> host_ok good ts') (handleRST p ts)"
proof -
  have "slice_ok (tbl ts)" using assms(1) by (simp add: host_ok_def table_wf_def)
  from close_at_host_ok [OF assms(1) valid_bound [OF this assms(2)]] obtain ts'
    where "close_at p ts = Ret ts'" "host_ok good ts'" by blast
  moreover have "handleRST p ts = close_at p ts" by (simp add: handleRST_def close_at_def Let_def)
  ultimately show ?thesis by simp
qed

lemma closer_wakes_safe:
  assumes "host_ok good ts"
  shows "safe (host_ok good) (closer_wakes env i ts)"
proof (cases "i < length (closers ts) \<and> fst (closers ts ! i) \<le> e_now env")
  case True
  obtain t p where c: "closers ts ! i = (t, p)" by (cases "closers ts ! i") auto
  let ?ts = "ts\<lparr>closers := take i (closers ts) @ drop (Suc i) (closers ts)\<rparr>"
  have mem: "(t, p) \<in> set (closers ts)" using True c nth_mem by metis
  have "tbl ?ts = tbl ts" "table_entries ?ts = table_entries ts"
    by (simp_all add: tbl_def table_entries_def)
  then have "host_ok good ?ts"
    using assms by (auto simp: host_ok_def table_wf_def closers_ok_def socks_ok_def refs_ok_def
        dest: in_set_takeD in_set_dropD)
  moreover have "snd p < length (arrays ?ts (fst p))"
    using assms mem by (cases p) (auto simp: host_ok_def closers_ok_def)
  ultimately obtain ts' where "close_at p ?ts = Ret ts'" "host_ok good ts'"
    using close_at_host_ok [of good ?ts p] by blast
  moreover have "closer_wakes env i ts = close_at p ?ts"
    using True c by (simp add: closer_wakes_def close_at_def Let_def)
  ultimately show ?thesis by simp
qed (use assms in \<open>auto simp: closer_wakes_def\<close>)

section \<open>New connections\<close>

lemma entry_ok_mono: "entry_ok ns ls e \<Longrightarrow> ns \<subseteq> ns' \<Longrightarrow> ls \<subseteq> ls' \<Longrightarrow> entry_ok ns' ls' e"
  by (auto simp: entry_ok_def split: Socket.splits)

lemma append_entry_arrays: "g \<le> tgen ts \<Longrightarrow> length (arrays (append_entry env e ts) g) = length (arrays ts g)"
  by (auto simp: append_entry_def Let_def)

lemma append_entry_fields:
  "normals (append_entry env e ts) = normals ts" "listeners (append_entry env e ts) = listeners ts"
  "ipStack (append_entry env e ts) = ipStack ts" "nextRef (append_entry env e ts) = nextRef ts"
  "closers (append_entry env e ts) = closers ts" "tgen ts \<le> tgen (append_entry env e ts)"
  "nextPort (append_entry env e ts) = nextPort ts" "nextSID (append_entry env e ts) = nextSID ts"
  by (simp_all add: append_entry_def Let_def)

lemma VInsert_fields:
  "normals (VInsertTableEntry env e ts) = normals ts" "listeners (VInsertTableEntry env e ts) = listeners ts"
  "ipStack (VInsertTableEntry env e ts) = ipStack ts" "nextRef (VInsertTableEntry env e ts) = nextRef ts"
  "closers (VInsertTableEntry env e ts) = closers ts" "tgen ts \<le> tgen (VInsertTableEntry env e ts)"
  "g \<le> tgen ts \<Longrightarrow> length (arrays (VInsertTableEntry env e ts) g) = length (arrays ts g)"
  "nextPort (VInsertTableEntry env e ts) = nextPort ts" "nextSID (VInsertTableEntry env e ts) = nextSID ts"
  by (simp_all add: VInsertTableEntry_def Let_def append_entry_fields append_entry_arrays split: Socket.split)

lemma VInsert_host_ok:
  assumes "host_ok good ts" "growing env" "entry_ok (dom (normals ts)) (dom (listeners ts)) e"
    and "SocketStruct e \<notin> SocketStruct ` set (table_entries ts)"
  shows "host_ok good (VInsertTableEntry env e ts)"
proof -
  have ok: "slice_ok (tbl ts)" using assms(1) by (simp add: host_ok_def table_wf_def)
  note ins = VInsertTableEntry_table [OF ok assms(2), of e]
  have "table_wf (VInsertTableEntry env e ts)"
    using assms(1,4) ins by (auto simp: host_ok_def table_wf_def)
  moreover have "closers_ok (VInsertTableEntry env e ts)"
    using assms(1) VInsert_fields(6) [of ts env e] VInsert_fields(7) [of _ ts env e]
    by (fastforce simp: host_ok_def closers_ok_def VInsert_fields(5))
  ultimately show ?thesis
    using assms(1,3) ins by (auto simp: host_ok_def socks_ok_def refs_ok_def VInsert_fields)
qed

lemma table_update_simps [simp]:
  "table_entries (ts\<lparr>nextSID := k\<rparr>) = table_entries ts" "tbl (ts\<lparr>nextSID := k\<rparr>) = tbl ts"
  "table_entries (ts\<lparr>nextPort := q\<rparr>) = table_entries ts" "tbl (ts\<lparr>nextPort := q\<rparr>) = tbl ts"
  "table_entries (ts\<lparr>nextRef := n\<rparr>) = table_entries ts" "tbl (ts\<lparr>nextRef := n\<rparr>) = tbl ts"
  "table_entries (ts\<lparr>normals := f\<rparr>) = table_entries ts" "tbl (ts\<lparr>normals := f\<rparr>) = tbl ts"
  "table_entries (ts\<lparr>listeners := l\<rparr>) = table_entries ts" "tbl (ts\<lparr>listeners := l\<rparr>) = tbl ts"
  "table_entries (ts\<lparr>closers := c\<rparr>) = table_entries ts" "tbl (ts\<lparr>closers := c\<rparr>) = tbl ts"
  "table_entries (ts\<lparr>outbox := out\<rparr>) = table_entries ts" "tbl (ts\<lparr>outbox := out\<rparr>) = tbl ts"
  by (simp_all add: table_entries_def tbl_def)

lemma new_socket_host_ok:
  assumes "host_ok good ts" "buffers_ok good s" "r = nextRef ts"
  shows "host_ok good (ts\<lparr>nextSID := k, nextRef := Suc r, normals := (normals ts)(r \<mapsto> s)\<rparr>)"
    "NormalRef r \<notin> SocketStruct ` set (table_entries ts)"
proof -
  let ?ts = "ts\<lparr>nextSID := k, nextRef := Suc r, normals := (normals ts)(r \<mapsto> s)\<rparr>"
  have e: "entry_ok (dom (normals ?ts)) (dom (listeners ?ts)) x" if "x \<in> set (table_entries ts)" for x
  proof (rule entry_ok_mono [of "dom (normals ts)" "dom (listeners ts)"])
    show "entry_ok (dom (normals ts)) (dom (listeners ts)) x"
      using assms(1) that unfolding host_ok_def by blast
  qed auto
  have "table_wf ?ts" "closers_ok ?ts" "stack_ok (ipStack ?ts)"
    using assms(1) by (simp_all add: host_ok_def table_wf_def closers_ok_def)
  moreover have "socks_ok good ?ts" using assms by (simp add: host_ok_def socks_ok_def)
  moreover have "refs_ok ?ts" using assms(1) by (auto simp: host_ok_def refs_ok_def assms(3) less_Suc_eq)
  ultimately show "host_ok good ?ts" using e by (simp add: host_ok_def)
  show "NormalRef r \<notin> SocketStruct ` set (table_entries ts)"
  proof
    assume "NormalRef r \<in> SocketStruct ` set (table_entries ts)"
    then obtain x where "x \<in> set (table_entries ts)" "SocketStruct x = NormalRef r" by (auto dest: sym)
    then have "r \<in> dom (normals ts)" using assms(1) by (fastforce simp: host_ok_def entry_ok_def)
    then show False using assms(1,3) by (auto simp: host_ok_def refs_ok_def)
  qed
qed

lemma new_buffer_good: "env_ok env good content cap \<Longrightarrow> good (new_buffer env) \<and> content (new_buffer env) = [] \<and>
  cap (new_buffer env) = 65535"
  using env_okD(3) [of env good content cap] by (simp add: new_buffer_def rb_laws_def BUFFER_SIZE_def Let_def)

lemma new_child_good: "env_ok env good content cap \<Longrightarrow> buffers_ok good (new_child env e h src sid)"
  using new_buffer_good [of env good content cap] by (simp add: buffers_ok_def new_child_def Let_def)

definition child_entry :: "TCPTableEntry \<Rightarrow> Addr \<Rightarrow> u16 \<Rightarrow> nat \<Rightarrow> TCPTableEntry" where
  "child_entry e src port r = \<lparr>LocalAddress = LocalAddress e, LocalPort = LocalPort e, RemoteAddress = src,
     RemotePort = port, State = TCP_SYN_RECEIVED, SocketStruct = NormalRef r\<rparr>"

definition spawned :: "('rb \<Rightarrow> bool) \<Rightarrow> TCPTableEntry \<Rightarrow> 'rb TCPStack \<Rightarrow> 'rb TCPStack \<Rightarrow> bool" where
  "spawned good e ts ts' \<longleftrightarrow> host_ok good ts' \<and> table_entries ts' = table_entries ts @ [e] \<and>
     closers ts' = closers ts \<and> ipStack ts' = ipStack ts \<and> tgen ts \<le> tgen ts' \<and>
     dom (listeners ts') = dom (listeners ts) \<and> dom (normals ts') = insert (nextRef ts) (dom (normals ts))"

lemma quiet_spawned: "spawned good e ts ts' \<Longrightarrow> quiet good ts' ts'' \<Longrightarrow> spawned good e ts ts''"
  using quiet_host_ok [of good ts' ts''] quiet_table [of good ts' ts''] by (simp add: spawned_def quiet_def)

lemma handleSYN_safe:
  assumes env: "env_ok env good content cap" and ok: "host_ok good ts" and p: "valid ts p"
    and st: "State (deref ts p) = TCP_LISTEN"
  shows "safe (spawned good (child_entry (deref ts p) src (SourcePort h) (nextRef ts)) ts) (handleSYN env p h src ts)"
proof -
  let ?e = "deref ts p" and ?r = "nextRef ts"
  let ?s = "new_child env ?e h src (nextSID ts)"
  let ?ts1 = "ts\<lparr>nextSID := nextSID ts + 1, nextRef := Suc ?r, normals := (normals ts)(?r \<mapsto> ?s)\<rparr>"
  let ?new = "child_entry ?e src (SourcePort h) ?r"
  let ?ts2 = "VInsertTableEntry env ?new ?ts1"
  obtain lr where lr: "listen_ref (SocketStruct ?e) = Ret lr" "lr \<in> dom (listeners ts)"
    using listen_entry [OF ok p st] by blast
  note child = new_child_good [OF env, of ?e h src "nextSID ts"]
  note new = new_socket_host_ok(1) [OF ok child refl, of "nextSID ts + 1"]
    new_socket_host_ok(2) [OF ok child refl]
  have ok2: "host_ok good ?ts2"
    by (rule VInsert_host_ok [OF new(1) env_okD(1) [OF env]])
       (use new(2) in \<open>simp_all add: entry_ok_def child_entry_def\<close>)
  have "table_entries ?ts2 = table_entries ts @ [?new]"
    using VInsertTableEntry_table(1) [OF _ env_okD(1) [OF env], of ?ts1 ?new] ok
    by (simp add: host_ok_def table_wf_def)
  with ok2 have sp: "spawned good ?new ts ?ts2"
    using VInsert_fields(6) [of ?ts1 env ?new] by (simp add: spawned_def VInsert_fields)
  have r2: "?r \<in> dom (normals ?ts2)" "lr \<in> dom (listeners ?ts2)" using lr by (simp_all add: VInsert_fields)
  have track: "quiet good ?ts2 (put_socket ?r (track (e_now env) pkt ?s) ?ts2)" for pkt
    by (rule put_socket_quiet [OF r2(1)])
       (use child in \<open>simp add: track_def buffers_ok_def\<close>)
  have "safe (spawned good ?new ts) (bindG (send_quiet env src hd [] (put_socket ?r (track (e_now env) pkt ?s) ?ts2))
      (\<lambda>ts. if has h TCP_ACK then accept_push lr ?r ts else Ret ts))" for hd pkt
  proof (rule safe_bind [OF send_quiet_safe])
    fix ts3 assume "quiet good (put_socket ?r (track (e_now env) pkt ?s) ?ts2) ts3"
    then have q3: "quiet good ?ts2 ts3" by (rule quiet_trans [OF track])
    have "lr \<in> dom (listeners ts3)" using r2(2) q3 by (simp add: quiet_def)
    from accept_push_safe [OF this, of good ?r]
    show "safe (spawned good ?new ts) (if has h TCP_ACK then accept_push lr ?r ts3 else Ret ts3)"
      using quiet_spawned [OF quiet_spawned [OF sp q3]] quiet_spawned [OF sp q3]
      by (auto elim: safe_mono)
  qed (use ok2 env_okD(2) [OF env] in \<open>simp_all add: host_ok_def put_socket_def\<close>)
  then show ?thesis
    by (simp add: handleSYN_def generateSID_def Let_def lr(1) child_entry_def cong: if_cong)
qed

end
