(* ===== verification/TCP_States.thy ===== *)
theory TCP_States
  imports TCP_Safety TCP_Example
begin

text \<open>
  The state machine of a connection: what one segment does to the table of a well-formed host,
  as an abstract function on the list of entries, and the refinement of it by \<open>HandleTCP\<close>.
\<close>

section \<open>The state machine\<close>

text \<open>
  What one segment does to the state of the connection it is for: the next state, or \<open>None\<close> when
  the connection is removed.
\<close>

definition on :: "bool \<Rightarrow> TCPState \<Rightarrow> TCPState \<Rightarrow> TCPState option" where
  "on c st' st = Some (if c then st' else st)"

fun fsm_next :: "TCPHeader \<Rightarrow> TCPState \<Rightarrow> TCPState option" where
  "fsm_next h TCP_SYN_SENT = on (has h TCP_SYN \<and> has h TCP_ACK) TCP_ESTABLISHED TCP_SYN_SENT"
| "fsm_next h TCP_SYN_RECEIVED = on (has h TCP_ACK) TCP_ESTABLISHED TCP_SYN_RECEIVED"
| "fsm_next h TCP_ESTABLISHED = on (has h TCP_FIN) TCP_CLOSE_WAIT TCP_ESTABLISHED"
| "fsm_next h TCP_FIN_WAIT_1 = on (has h TCP_ACK) TCP_FIN_WAIT_2 TCP_FIN_WAIT_1"
| "fsm_next h TCP_FIN_WAIT_2 = on (has h TCP_FIN) TCP_TIME_WAIT TCP_FIN_WAIT_2"
| "fsm_next h TCP_LAST_ACK = (if has h TCP_ACK then None else Some TCP_LAST_ACK)"
| "fsm_next h st = Some st"

text \<open>
  The change of the stack that goes with it: the entry's state, sockets in place, and sleeping
  closers; nothing else.
\<close>

definition evolves ::
  "('rb \<Rightarrow> bool) \<Rightarrow> Time \<Rightarrow> entry_ptr \<Rightarrow> TCPState \<Rightarrow> 'rb TCPStack \<Rightarrow> 'rb TCPStack \<Rightarrow> bool" where
  "evolves good t p st ts ts' \<longleftrightarrow> (\<exists>c. set c \<subseteq> {(t + 2 * MSL, p)} \<and>
     quiet good (set_State p st (ts\<lparr>closers := closers ts @ c\<rparr>)) ts')"

lemma set_State_twice [simp]: "set_State p b (set_State p a ts) = set_State p b ts"
proof -
  obtain g i where p: "p = (g, i)" by (cases p)
  have "(xs[i := (xs ! i)\<lparr>State := a\<rparr>])[i := (xs[i := (xs ! i)\<lparr>State := a\<rparr>] ! i)\<lparr>State := b\<rparr>] =
      xs[i := (xs ! i)\<lparr>State := b\<rparr>]" for xs :: "TCPTableEntry list"
    by (cases "i < length xs") (simp_all add: list_update_beyond)
  then show ?thesis by (simp add: p set_State_def)
qed

lemma quiet_set_State: "quiet good ts ts' \<Longrightarrow> quiet good (set_State p st ts) (set_State p st ts')"
  by (cases p) (simp add: quiet_def set_State_def socks_ok_def)

lemma quiet_closers: "quiet good ts ts' \<Longrightarrow> quiet good (ts\<lparr>closers := closers ts @ c\<rparr>) (ts'\<lparr>closers := closers ts' @ c\<rparr>)"
  by (simp add: quiet_def socks_ok_def)

lemma evolves_moved: "moved good p st ts ts' \<Longrightarrow> evolves good t p st ts ts'"
  unfolding evolves_def moved_def by (intro exI [of _ "[]"]) simp

lemma evolves_quiet: "quiet good ts ts' \<Longrightarrow> st = State (deref ts p) \<Longrightarrow> evolves good t p st ts ts'"
  using evolves_moved [of good p st ts ts' t] by (simp add: moved_same)

lemma set_State_closers_swap: "set_State p st (ts\<lparr>closers := c\<rparr>) = (set_State p st ts)\<lparr>closers := c\<rparr>"
  by (cases p) (simp add: set_State_def)

lemma evolves_moved_closing:
  assumes "moved_closing good t p st ts ts'"
  shows "evolves good t p (fin_state st) ts ts'"
proof -
  obtain ts1 where m: "quiet good (set_State p (fin_state st) ts) ts1"
    and ts': "ts' = (if st = TCP_FIN_WAIT_2 then ts1\<lparr>closers := closers ts1 @ [(t + 2 * MSL, p)]\<rparr> else ts1)"
    using assms unfolding moved_closing_def moved_def by blast
  show ?thesis
  proof (cases "st = TCP_FIN_WAIT_2")
    case True
    have "quiet good (set_State p (fin_state st) (ts\<lparr>closers := closers ts @ [(t + 2 * MSL, p)]\<rparr>)) ts'"
      using quiet_closers [OF m, of "[(t + 2 * MSL, p)]"] True ts' by (simp add: set_State_closers_swap)
    then show ?thesis unfolding evolves_def by (intro exI [of _ "[(t + 2 * MSL, p)]"]) simp
  qed (use m ts' evolves_moved in \<open>simp add: moved_def\<close>)
qed

lemma evolves_trans:
  assumes "evolves good t p a ts ts'" "evolves good t p b ts' ts''"
  shows "evolves good t p b ts ts''"
proof -
  obtain c d where c: "set c \<subseteq> {(t + 2 * MSL, p)}" "quiet good (set_State p a (ts\<lparr>closers := closers ts @ c\<rparr>)) ts'"
    and d: "set d \<subseteq> {(t + 2 * MSL, p)}" "quiet good (set_State p b (ts'\<lparr>closers := closers ts' @ d\<rparr>)) ts''"
    using assms unfolding evolves_def by blast
  have "quiet good (set_State p b (ts\<lparr>closers := closers ts @ c @ d\<rparr>)) (set_State p b (ts'\<lparr>closers := closers ts' @ d\<rparr>))"
    using quiet_set_State [OF quiet_closers [OF c(2), of d], of p b]
    by (simp add: set_State_closers_swap)
  from quiet_trans [OF this d(2)] c(1) d(1) show ?thesis
    unfolding evolves_def by (intro exI [of _ "c @ d"]) simp
qed

lemma ready_evolves:
  assumes "ready env good content cap p r ts" "evolves good t p st ts ts'" "st \<noteq> TCP_LISTEN"
  shows "ready env good content cap p r ts'" "State (deref ts' p) = st"
proof -
  obtain c where c: "set c \<subseteq> {(t + 2 * MSL, p)}" "quiet good (set_State p st (ts\<lparr>closers := closers ts @ c\<rparr>)) ts'"
    using assms(2) unfolding evolves_def by blast
  have "ready env good content cap p r (ts\<lparr>closers := closers ts @ d\<rparr>)" if "set d \<subseteq> {(t + 2 * MSL, p)}" for d
    using that
  proof (induction d rule: rev_induct)
    case (snoc x d)
    then show ?case using closer_ready [of env good content cap p r "ts\<lparr>closers := closers ts @ d\<rparr>" "t + 2 * MSL"] by simp
  qed (use assms(1) in simp)
  from ready_set_State [OF this [OF c(1)] assms(3)] ready_quiet [OF _ c(2)] quiet_deref [OF c(2), of p]
  show "ready env good content cap p r ts'" "State (deref ts' p) = st" by simp_all
qed

text \<open>The outcome of a segment for a connection.\<close>

definition outcome ::
  "('rb \<Rightarrow> bool) \<Rightarrow> Time \<Rightarrow> entry_ptr \<Rightarrow> TCPState option \<Rightarrow> 'rb TCPStack \<Rightarrow> 'rb TCPStack \<Rightarrow> bool" where
  "outcome good t p next ts ts' \<longleftrightarrow> (case next of
     Some st \<Rightarrow> evolves good t p st ts ts'
   | None \<Rightarrow> \<exists>ts1. quiet good ts ts1 \<and> close_at p ts1 = Ret ts')"

lemma when_go_safe: "(c \<Longrightarrow> safe P (f s)) \<Longrightarrow> (\<not> c \<Longrightarrow> P s) \<Longrightarrow> safe P (when_go c f s)"
  by (simp add: when_go_def)

lemma established_part:
  assumes "ready env good content cap p r ts" "State (deref ts p) = st"
  shows "safe (evolves good (e_now env) p st ts) (when_go c (handleEstablishedPacket env p h payload) ts)"
  using evolves_quiet [of good ts _ st p] assms(2)
  by (intro when_go_safe safe_mono [OF handleEstablishedPacket_safe [OF assms(1)]]) auto

lemma fin_part:
  assumes "ready env good content cap p r ts" "State (deref ts p) = st"
  shows "safe (evolves good (e_now env) p (if c then fin_state st else st) ts) (when_go c (handleFIN env p h) ts)"
  using evolves_moved_closing [of good "e_now env" p st ts] evolves_quiet [of good ts ts st p] assms(2)
  by (intro when_go_safe safe_mono [OF handleFIN_safe [OF assms(1)]]) auto

lemma ack_part:
  assumes "ready env good content cap p r ts" "State (deref ts p) = st"
  shows "safe (outcome good (e_now env) p
      (if c then if st = TCP_LAST_ACK then None else Some (closing_state st) else Some st) ts)
    (when_go c (handleClosingACK env p h) ts)"
  using evolves_moved [of good p "closing_state st" ts] evolves_quiet [of good ts ts st p] assms(2)
  by (intro when_go_safe safe_mono [OF handleClosingACK_safe [OF assms(1)]])
     (auto simp: outcome_def acked_closing_def)

lemma evolves_outcome:
  "evolves good t p a ts ts' \<Longrightarrow> outcome good t p next ts' ts'' \<Longrightarrow> next \<noteq> None \<Longrightarrow> outcome good t p next ts ts''"
  using evolves_trans [of good t p a ts ts'] by (auto simp: outcome_def)

lemma dispatch_safe:
  assumes r: "ready env good content cap p r ts"
  shows "safe (outcome good (e_now env) p (fsm_next h (State (deref ts p))) ts) (dispatch env p h payload src ts)"
proof -
  have stay: "outcome good (e_now env) p (Some (State (deref ts p))) ts ts"
    by (simp add: outcome_def evolves_quiet)
  show ?thesis
  proof (cases "State (deref ts p)")
    case TCP_LISTEN
    then show ?thesis using readyD(9) [OF r] by simp
  next
    case TCP_SYN_SENT
    then show ?thesis
      using stay evolves_moved [of good p TCP_ESTABLISHED ts]
      by (auto simp: dispatch_def on_def outcome_def intro!: when_go_safe safe_mono [OF handleSYNACK_safe [OF r]])
  next
    case TCP_SYN_RECEIVED
    then show ?thesis
      using stay evolves_moved [of good p TCP_ESTABLISHED ts]
      by (auto simp: dispatch_def on_def outcome_def intro!: when_go_safe safe_mono [OF handleACK_safe [OF r]])
  next
    case TCP_ESTABLISHED
    have "safe (outcome good (e_now env) p (fsm_next h TCP_ESTABLISHED) ts)
      (bindG (when_go (has h TCP_ACK \<or> payload \<noteq> []) (handleEstablishedPacket env p h payload) ts)
        (when_go (has h TCP_FIN) (handleFIN env p h)))"
    proof (rule safe_bind [OF established_part [OF r TCP_ESTABLISHED]])
      fix ts1 assume e: "evolves good (e_now env) p TCP_ESTABLISHED ts ts1"
      note r1 = ready_evolves [OF r e TCPState.distinct(6)]
      show "safe (outcome good (e_now env) p (fsm_next h TCP_ESTABLISHED) ts) (when_go (has h TCP_FIN) (handleFIN env p h) ts1)"
        by (rule safe_mono [OF fin_part [OF r1]])
           (use evolves_trans [OF e] in \<open>auto simp: outcome_def on_def fin_state_def\<close>)
    qed
    then show ?thesis by (simp add: dispatch_def TCP_ESTABLISHED)
  next
    case TCP_FIN_WAIT_1
    have "safe (outcome good (e_now env) p (fsm_next h TCP_FIN_WAIT_1) ts)
      (bindG (when_go (payload \<noteq> []) (handleEstablishedPacket env p h payload) ts)
        (when_go (has h TCP_ACK) (handleClosingACK env p h)))"
    proof (rule safe_bind [OF established_part [OF r TCP_FIN_WAIT_1]])
      fix ts1 assume e: "evolves good (e_now env) p TCP_FIN_WAIT_1 ts ts1"
      note r1 = ready_evolves [OF r e] 
      show "safe (outcome good (e_now env) p (fsm_next h TCP_FIN_WAIT_1) ts) (when_go (has h TCP_ACK) (handleClosingACK env p h) ts1)"
        by (rule safe_mono [OF ack_part [OF r1]])
           (use evolves_outcome [OF e] in \<open>auto simp: on_def closing_state_def\<close>)
    qed
    then show ?thesis by (simp add: dispatch_def TCP_FIN_WAIT_1)
  next
    case TCP_FIN_WAIT_2
    let ?st = "if has h TCP_FIN then TCP_TIME_WAIT else TCP_FIN_WAIT_2"
    have "safe (outcome good (e_now env) p (Some ?st) ts)
      (bindG (when_go (payload \<noteq> []) (handleEstablishedPacket env p h payload) ts) (\<lambda>ts.
       bindG (when_go (has h TCP_FIN) (handleFIN env p h) ts)
        (when_go (has h TCP_ACK) (handleClosingACK env p h))))"
    proof (rule safe_bind [OF established_part [OF r TCP_FIN_WAIT_2]])
      fix ts1 assume e: "evolves good (e_now env) p TCP_FIN_WAIT_2 ts ts1"
      note r1 = ready_evolves [OF r e]
      show "safe (outcome good (e_now env) p (Some ?st) ts) (bindG (when_go (has h TCP_FIN) (handleFIN env p h) ts1)
          (when_go (has h TCP_ACK) (handleClosingACK env p h)))"
      proof (rule safe_bind [OF fin_part [OF r1]])
        fix ts2 assume "evolves good (e_now env) p (if has h TCP_FIN then fin_state TCP_FIN_WAIT_2 else TCP_FIN_WAIT_2) ts1 ts2"
        then have e2: "evolves good (e_now env) p ?st ts1 ts2" by (simp add: fin_state_def split: if_splits)
        note r2 = ready_evolves [OF r1(1) e2]
        show "safe (outcome good (e_now env) p (Some ?st) ts) (when_go (has h TCP_ACK) (handleClosingACK env p h) ts2)"
          by (rule safe_mono [OF ack_part [OF r2]])
             (use evolves_outcome [OF evolves_trans [OF e e2]] in \<open>auto simp: closing_state_def split: if_splits\<close>)
      qed simp_all
    qed
    then show ?thesis by (simp add: dispatch_def TCP_FIN_WAIT_2 on_def)
  next
    case TCP_TIME_WAIT
    have "safe (outcome good (e_now env) p (Some TCP_TIME_WAIT) ts)
      (bindG (when_go (has h TCP_FIN) (handleFIN env p h) ts) (when_go (has h TCP_ACK) (handleClosingACK env p h)))"
    proof (rule safe_bind [OF fin_part [OF r TCP_TIME_WAIT]])
      fix ts1 assume "evolves good (e_now env) p (if has h TCP_FIN then fin_state TCP_TIME_WAIT else TCP_TIME_WAIT) ts ts1"
      then have e: "evolves good (e_now env) p TCP_TIME_WAIT ts ts1" by (simp add: fin_state_def split: if_splits)
      note r1 = ready_evolves [OF r e]
      show "safe (outcome good (e_now env) p (Some TCP_TIME_WAIT) ts) (when_go (has h TCP_ACK) (handleClosingACK env p h) ts1)"
        by (rule safe_mono [OF ack_part [OF r1]])
           (use evolves_outcome [OF e] in \<open>auto simp: closing_state_def split: if_splits\<close>)
    qed
    then show ?thesis by (simp add: dispatch_def TCP_TIME_WAIT)
  next
    case TCP_CLOSING
    show ?thesis
      using ack_part [OF r TCP_CLOSING, of "has h TCP_ACK" h]
      by (simp add: dispatch_def TCP_CLOSING closing_state_def cong: if_cong)
  next
    case TCP_LAST_ACK
    show ?thesis
      using ack_part [OF r TCP_LAST_ACK, of "has h TCP_ACK" h]
      by (cases "has h TCP_ACK") (simp_all add: dispatch_def TCP_LAST_ACK)
  next
    case TCP_CLOSE_WAIT
    then show ?thesis using stay by (simp add: dispatch_def)
  next
    case TCP_CLOSED
    then show ?thesis using stay by (simp add: dispatch_def)
  qed
qed

section \<open>The table as a list of entries\<close>

definition without :: "nat \<Rightarrow> 'a list \<Rightarrow> 'a list" where
  "without i xs = take i xs @ drop (Suc i) xs"

lemma filter_without: "distinct xs \<Longrightarrow> i < length xs \<Longrightarrow> filter (\<lambda>x. x \<noteq> xs ! i) xs = without i xs"
proof -
  assume d: "distinct xs" and i: "i < length xs"
  have xs: "xs = take i xs @ xs ! i # drop (Suc i) xs" using i by (rule id_take_nth_drop)
  have "distinct (take i xs @ xs ! i # drop (Suc i) xs)" using d xs by simp
  then have "xs ! i \<notin> set (take i xs)" "xs ! i \<notin> set (drop (Suc i) xs)" by simp_all
  then have "filter (\<lambda>x. x \<noteq> xs ! i) (take i xs) = take i xs"
    "filter (\<lambda>x. x \<noteq> xs ! i) (drop (Suc i) xs) = drop (Suc i) xs"
    by (auto simp: filter_id_conv)
  then show ?thesis
    by (subst (2) xs) (simp add: without_def)
qed

text \<open>
  The abstract step: a segment for entry \<open>i\<close> from the address \<open>src\<close>. A listener spawns a
  connection, any other entry moves or is removed.
\<close>

definition fsm_table ::
  "TCPHeader \<Rightarrow> Addr \<Rightarrow> nat \<Rightarrow> nat \<Rightarrow> TCPTableEntry list \<Rightarrow> TCPTableEntry list" where
  "fsm_table h src r i es =
     (if State (es ! i) = TCP_LISTEN
      then if has h TCP_SYN then es @ [child_entry (es ! i) src (SourcePort h) r] else es
      else if has h TCP_RST then without i es
      else (case fsm_next h (State (es ! i)) of
              Some st \<Rightarrow> es[i := (es ! i)\<lparr>State := st\<rparr>]
            | None \<Rightarrow> without i es))"

lemma close_at_entries:
  assumes "table_wf ts" "close_at (tgen ts, i) ts = Ret ts'" "i < tlen ts"
  shows "table_entries ts' = without i (table_entries ts)"
proof -
  let ?p = "(tgen ts, i)" and ?es = "table_entries (set_State (tgen ts, i) TCP_CLOSED ts)"
  have ok: "slice_ok (tbl ts)" using assms(1) by (simp add: table_wf_def)
  have wf: "table_wf (set_State ?p TCP_CLOSED ts)" by (rule set_State_wf [OF assms(1)])
  then have ok': "slice_ok (tbl (set_State ?p TCP_CLOSED ts))" "distinct ?es"
    by (simp_all add: table_wf_def distinct_map)
  have e: "?es = (table_entries ts)[i := (table_entries ts ! i)\<lparr>State := TCP_CLOSED\<rparr>]"
    using set_State_table(1) [OF ok assms(3)] .
  have "deref (set_State ?p TCP_CLOSED ts) ?p = ?es ! i"
    using table_entries_nth [OF ok'(1), of i] assms(3) by simp
  then have "table_entries ts' = without i ?es"
    using close_at_ex [OF assms(1), of ?p] assms(2,3) filter_without [OF ok'(2), of i]
      length_table_entries [OF ok'(1)] by simp
  then show ?thesis by (simp add: e without_def)
qed

lemma evolves_entries:
  assumes "slice_ok (tbl ts)" "i < tlen ts" "evolves good t (tgen ts, i) st ts ts'"
  shows "table_entries ts' = (table_entries ts)[i := (table_entries ts ! i)\<lparr>State := st\<rparr>]"
proof -
  obtain c where q: "quiet good (set_State (tgen ts, i) st (ts\<lparr>closers := closers ts @ c\<rparr>)) ts'"
    using assms(3) unfolding evolves_def by blast
  show ?thesis
    using quiet_table [OF q] set_State_table(1) [OF assms(1,2), of st] by (simp add: set_State_closers_swap)
qed

text \<open>One segment on a well-formed host, in the terms of the abstract step.\<close>

lemma HandleTCP_safe:
  assumes env: "env_ok env good content cap" and ok: "host_ok good ts"
    and parse: "ParseTCPHeader packet spare = Ret (h, payload)"
  shows "safe (\<lambda>(err, ts'). host_ok good ts' \<and>
      (case VFindTableEntry ts dst (DestPort h) src (SourcePort h) of
         None \<Rightarrow> ts' = ts \<and> err = Some ''entry not found''
       | Some (g, i) \<Rightarrow> err = None \<and> table_entries ts' = fsm_table h src (nextRef ts) i (table_entries ts)))
    (HandleTCP env src dst packet spare ts)"
proof (cases "VFindTableEntry ts dst (DestPort h) src (SourcePort h)")
  case None
  then show ?thesis using ok by (simp add: HandleTCP_def parse)
next
  case (Some p)
  have wf: "table_wf ts" "slice_ok (tbl ts)" using ok by (simp_all add: host_ok_def table_wf_def)
  obtain i where p: "p = (tgen ts, i)" "i < tlen ts" using VFind_Some [OF wf(2) Some] by blast
  have valid: "valid ts p" using p by (simp add: valid_def)
  have e: "deref ts p = table_entries ts ! i" using table_entries_nth [OF wf(2) p(2)] p(1) by simp
  let ?P = "\<lambda>ts'. host_ok good ts' \<and> table_entries ts' = fsm_table h src (nextRef ts) i (table_entries ts)"
  have "safe ?P (if has h TCP_RST \<and> State (deref ts p) \<noteq> TCP_LISTEN then handleRST p ts
      else dispatch env p h payload src ts)"
  proof (cases "State (deref ts p) = TCP_LISTEN")
    case True
    have "safe ?P (when_go (has h TCP_SYN) (handleSYN env p h src) ts)"
      using True ok
      by (intro when_go_safe safe_mono [OF handleSYN_safe [OF env ok valid True, of src h]])
         (auto simp: spawned_def fsm_table_def e)
    with True show ?thesis by (simp add: dispatch_def)
  next
    case False
    then obtain r where r: "ready env good content cap p r ts"
      using host_ok_entry [OF ok valid] env ok valid
      by (cases "SocketStruct (deref ts p)") (auto simp: ready_def entry_ok_def)
    show ?thesis
    proof (cases "has h TCP_RST")
      case True
      have "safe ?P (handleRST p ts)"
        by (rule safe_mono [OF handleRST_safe [OF ok valid]])
           (use close_at_entries [OF wf(1)] p True False [unfolded e] in \<open>auto simp: fsm_table_def e\<close>)
      with True False show ?thesis by simp
    next
      case rst: False
      have "safe ?P (dispatch env p h payload src ts)"
      proof (rule safe_mono [OF dispatch_safe [OF r]])
        fix ts' assume o: "outcome good (e_now env) p (fsm_next h (State (deref ts p))) ts ts'"
        show "?P ts'"
        proof (cases "fsm_next h (State (deref ts p))")
          case None
          with o obtain ts1 where q: "quiet good ts ts1" and c: "close_at p ts1 = Ret ts'"
            by (auto simp: outcome_def)
          have ts1: "table_wf ts1" "tgen ts1 = tgen ts" "tlen ts1 = tlen ts" "table_entries ts1 = table_entries ts"
            using quiet_host_ok [OF q ok] quiet_table [OF q] q by (simp_all add: host_ok_def quiet_def)
          have "table_entries ts' = without i (table_entries ts)"
            using close_at_entries [OF ts1(1), of i ts'] c p ts1 by simp
          moreover have "host_ok good ts'"
            using acked_closing_host_ok [OF r, of ts'] None q c
            by (cases "State (deref ts p)") (auto simp: acked_closing_def on_def)
          ultimately show ?thesis using None [unfolded e] rst False [unfolded e] by (simp add: fsm_table_def)
        next
          case st: (Some st)
          have "st \<noteq> TCP_LISTEN" using st False by (cases "State (deref ts p)") (auto simp: on_def split: if_splits)
          moreover have ev: "evolves good (e_now env) p st ts ts'" using o st by (simp add: outcome_def)
          ultimately have "host_ok good ts'" using ready_evolves(1) [OF r] readyD(2) by blast
          then show ?thesis
            using evolves_entries [OF wf(2) p(2)] ev st [unfolded e] rst False [unfolded e] p by (simp add: fsm_table_def)
        qed
      qed
      with rst show ?thesis by simp
    qed
  qed
  then have "safe (\<lambda>(err, ts'). host_ok good ts' \<and> err = None \<and>
      table_entries ts' = fsm_table h src (nextRef ts) i (table_entries ts))
    (mapG (Pair None) (if has h TCP_RST \<and> State (deref ts p) \<noteq> TCP_LISTEN then handleRST p ts
      else dispatch env p h payload src ts))"
    by (intro safe_mapG) (simp add: safe_mono)
  moreover have "HandleTCP env src dst packet spare ts = mapG (Pair None)
      (if has h TCP_RST \<and> State (deref ts p) \<noteq> TCP_LISTEN then handleRST p ts else dispatch env p h payload src ts)"
    using Some by (simp add: HandleTCP_def parse)
  ultimately show ?thesis using Some by (simp only: option.case p prod.case simp_thms)
qed

section \<open>An example\<close>

text \<open>Without a payload and outside the handshake nothing can block.\<close>

lemma send_quiet_Ret:
  assumes "stack_ok (ipStack ts)" "marshals (e_lib env)"
  shows "\<exists>x. send_quiet env dst h payload ts = Ret (ts\<lparr>outbox := outbox ts @ [x]\<rparr>)"
proof -
  obtain y where "SendIP (e_lib env) (e_ord1 env) (e_ord2 env) (ipStack ts) dst TCP_PROTOCOL 16
      (serializeTCPPacket h payload) = Ret y"
    using SendIP_returns [OF assms] by (rule returnsE)
  then have "send_quiet env dst h payload ts = Ret (ts\<lparr>outbox := outbox ts @ [(dst, serializeTCPPacket h payload, y)]\<rparr>)"
    by (simp add: send_quiet_def sendPacket_def)
  then show ?thesis by blast
qed

lemma safe_returnsI: "safe P m \<Longrightarrow> m \<noteq> Block \<Longrightarrow> \<exists>x. m = Ret x \<and> P x"
  by (cases m) simp_all

lemma update_socket_not_Block [simp]: "update_socket r f ts \<noteq> Block"
  by (simp add: update_socket_def socket_of_def split: option.splits)

lemma VDelete_not_Block: "VDeleteTableEntry e ts \<noteq> Block"
proof -
  have "delete_loop e is sl \<noteq> Block" for "is" sl
  proof (induction "is" arbitrary: sl)
    case (Cons i "is")
    then show ?case by (cases "delete_visit e i sl") (simp_all add: delete_visit_def Let_def split: if_splits)
  qed simp
  then show ?thesis by (cases "delete_loop e [0..<tlen ts] (tbl ts)") (auto simp: VDeleteTableEntry_def)
qed

lemma bindG_eq_Block: "bindG m f = Block \<longleftrightarrow> m = Block \<or> (\<exists>x. m = Ret x \<and> f x = Block)"
  by (cases m) auto

lemma bind_not_Block: "m \<noteq> Block \<Longrightarrow> (\<And>x. m = Ret x \<Longrightarrow> f x \<noteq> Block) \<Longrightarrow> bindG m f \<noteq> Block"
  by (cases m) simp_all

lemma send_put_not_Block:
  "ready env good content cap p r ts \<Longrightarrow> send_quiet env dst h payload (put_socket r s ts) \<noteq> Block"
  using send_quiet_Ret [of "put_socket r s ts" env dst h payload] readyD(6,7) [of env good content cap p r ts]
  by (auto simp: put_socket_def)

lemma handleFIN_not_Block:
  assumes "ready env good content cap p r ts"
  shows "handleFIN env p h ts \<noteq> Block"
  unfolding handleFIN_def Let_def readyD(5) [OF assms] bindG.simps
proof (intro bind_not_Block, goal_cases)
  case 1
  show ?case by (simp add: socket_of_def split: option.splits)
next
  case (2 s)
  show ?case by (rule send_put_not_Block [OF assms])
qed simp_all

lemma established_empty_not_Block: "handleEstablishedPacket env p h [] ts \<noteq> Block"
  unfolding handleEstablishedPacket_def
  by (intro bind_not_Block) (simp_all add: normal_ref_def split: Socket.split)

lemma ex_env_ok: "env_ok ex_env list_rb_good fst snd"
  using ex_env_growing ex_total_lib_marshals list_rb_laws by (simp add: env_ok_def)

lemma ex_host_ok: "st \<noteq> TCP_LISTEN \<Longrightarrow> host_ok list_rb_good (ex_host st)"
  using ex_stack_ok ex_host_table [of st]
  by (auto simp: host_ok_def closers_ok_def socks_ok_def refs_ok_def buffers_ok_def list_rb_good_def
      entry_ok_def ex_listener_def ex_conn_def ex_socket_def ex_snd_def ex_rcv_def)

definition ex_fin :: "byte list" where
  "ex_fin = [0, 80, 192, 0, 0, 0, 19, 137, 0, 0, 3, 233, 0x50, 0x11, 255, 255, 0, 0, 0, 0]"

definition ex_fin_header :: TCPHeader where
  "ex_fin_header = \<lparr>SourcePort = 80, DestPort = 49152, SeqNum = 5001, AckNum = 1001, DataOffset = 5,
     TFlags = TCP_FIN OR TCP_ACK, WindowSize = 65535, TChecksum = 0, UrgentPtr = 0\<rparr>"

lemma ex_fin_parse: "ParseTCPHeader ex_fin [] = Ret (ex_fin_header, [])"
  by (simp add: ParseTCPHeader_def ex_fin_def ex_fin_header_def slice16_def slice32_def index_def
      Uint16_def Uint32_def flag_defs Let_def)

lemma ex_fin_finds:
  "VFindTableEntry (ex_host st) (IPv4 0x0a000001) 49152 (IPv4 0x0a000002) 80 = Some (0, Suc 0)"
  by (simp add: VFindTableEntry_def ex_host_table ex_listener_def ex_conn_def)

lemma ex_fin_returns:
  "\<exists>ts'. HandleTCP ex_env (IPv4 0x0a000002) (IPv4 0x0a000001) ex_fin [] (ex_host TCP_ESTABLISHED) = Ret (None, ts')"
proof -
  let ?ts = "ex_host TCP_ESTABLISHED" and ?p = "(0, Suc 0) :: entry_ptr"
  have d: "deref ?ts ?p = ex_conn TCP_ESTABLISHED" by (simp add: deref_def)
  have r: "ready ex_env list_rb_good fst snd ?p 1 ?ts"
    using ex_env_ok ex_host_ok [of TCP_ESTABLISHED] by (simp add: ready_def valid_def d) (simp add: ex_conn_def)
  have "dispatch ex_env ?p ex_fin_header [] (IPv4 0x0a000002) ?ts \<noteq> Block"
  proof -
    have "bindG (when_go c (handleEstablishedPacket ex_env ?p ex_fin_header []) ?ts)
        (when_go d (handleFIN ex_env ?p ex_fin_header)) \<noteq> Block" for c d
    proof (rule bind_not_Block)
      show "when_go c (handleEstablishedPacket ex_env ?p ex_fin_header []) ?ts \<noteq> Block"
        by (simp add: when_go_def established_empty_not_Block)
    next
      fix ts1 assume "when_go c (handleEstablishedPacket ex_env ?p ex_fin_header []) ?ts = Ret ts1"
      then have "quiet list_rb_good ?ts ts1"
        using handleEstablishedPacket_safe [OF r, of ex_fin_header "[]"] by (auto simp: when_go_def split: if_splits)
      then show "when_go d (handleFIN ex_env ?p ex_fin_header) ts1 \<noteq> Block"
        using handleFIN_not_Block [OF ready_quiet [OF r]] by (simp add: when_go_def)
    qed
    then show ?thesis by (simp add: dispatch_def d) (simp add: ex_conn_def)
  qed
  moreover have "dispatch ex_env ?p ex_fin_header [] (IPv4 0x0a000002) ?ts \<noteq> Panic"
    by (rule safe_not_Panic [OF dispatch_safe [OF r]])
  ultimately obtain ts' where "dispatch ex_env ?p ex_fin_header [] (IPv4 0x0a000002) ?ts = Ret ts'"
    by (cases "dispatch ex_env ?p ex_fin_header [] (IPv4 0x0a000002) ?ts") auto
  moreover have "\<not> has ex_fin_header TCP_RST" by (simp add: has_def ex_fin_header_def flag_defs)
  ultimately show ?thesis
    using ex_fin_finds [of TCP_ESTABLISHED] by (simp add: HandleTCP_def ex_fin_parse) (simp add: ex_fin_header_def)
qed

section \<open>The properties\<close>

lemma HandleTCP_Panic:
  assumes "env_ok env good content cap" "host_ok good ts"
  shows "HandleTCP env src dst packet spare ts = Panic \<longleftrightarrow> ParseTCPHeader packet spare = Panic"
proof (cases "ParseTCPHeader packet spare")
  case (Ret x)
  then obtain h payload where "ParseTCPHeader packet spare = Ret (h, payload)" by (cases x) simp
  from HandleTCP_safe [OF assms this, where dst = dst and src = src] Ret show ?thesis
    by (cases "HandleTCP env src dst packet spare ts") auto
qed (simp_all add: HandleTCP_def)


text \<open>
  C27. The state machine. When \<open>HandleTCP\<close> returns, the table is that of the abstract step for the
  entry that was found: a SYN for a listener appends a connection in SYN_RECEIVED; a RST, or an
  ACK in LAST_ACK, removes the connection; otherwise exactly its state changes, along SYN_SENT,
  SYN_RECEIVED to ESTABLISHED, ESTABLISHED to CLOSE_WAIT, FIN_WAIT_1 to FIN_WAIT_2 to TIME_WAIT.
  No other entry is touched, and a segment for no entry changes nothing.
\<close>

theorem handle_tcp_refines_fsm:
  assumes "env_ok env good content cap" "host_ok good ts"
    and "ParseTCPHeader packet spare = Ret (h, payload)"
    and "HandleTCP env src dst packet spare ts = Ret (err, ts')"
  shows "case VFindTableEntry ts dst (DestPort h) src (SourcePort h) of
      None \<Rightarrow> ts' = ts \<and> err = Some ''entry not found''
    | Some (g, i) \<Rightarrow> err = None \<and> table_entries ts' = fsm_table h src (nextRef ts) i (table_entries ts)"
  using HandleTCP_safe [OF assms(1-3), where dst = dst and src = src] assms(4) by simp


theorem handle_tcp_refines_fsm_witness:
  "\<exists>ts'. HandleTCP ex_env (IPv4 0x0a000002) (IPv4 0x0a000001) ex_fin [] (ex_host TCP_ESTABLISHED) = Ret (None, ts') \<and>
     table_entries ts' = [ex_listener, ex_conn TCP_CLOSE_WAIT]"
proof -
  obtain ts' where ts': "HandleTCP ex_env (IPv4 0x0a000002) (IPv4 0x0a000001) ex_fin [] (ex_host TCP_ESTABLISHED) = Ret (None, ts')"
    using ex_fin_returns by blast
  have "has ex_fin_header TCP_RST = False" "has ex_fin_header TCP_FIN = True"
    by (simp_all add: has_def ex_fin_header_def flag_defs)
  then have "table_entries ts' = [ex_listener, ex_conn TCP_CLOSE_WAIT]"
    using handle_tcp_refines_fsm [OF ex_env_ok ex_host_ok ex_fin_parse ts'] ex_fin_finds [of TCP_ESTABLISHED]
    by (simp add: ex_fin_header_def fsm_table_def ex_host_table) (simp add: ex_conn_def on_def)
  with ts' show ?thesis by blast
qed

end
