(* ===== verification/TCP_Reassembly.thy ===== *)
theory TCP_Reassembly
  imports TCP_States
begin

text \<open>
  Reassembly of the byte stream: against the peer's stream \<open>S\<close>, whose first byte has sequence number
  \<open>base\<close>, the receive buffer is always extended by the next bytes of \<open>S\<close>, whatever the order in
  which segments arrive; and when a handler waits for room in the buffer.
\<close>

section \<open>Segments of a stream\<close>

definition segment_of :: "u32 \<Rightarrow> byte list \<Rightarrow> u32 \<Rightarrow> byte list \<Rightarrow> bool" where
  "segment_of base S q d \<longleftrightarrow>
     (\<exists>off. q = base + word_of_nat off \<and> off + length d \<le> length S \<and> d = take (length d) (drop off S))"

text \<open>The first \<open>k\<close> bytes have been taken over; what waits is part of the stream.\<close>

definition rx_ok :: "u32 \<Rightarrow> byte list \<Rightarrow> nat \<Rightarrow> 'rb RCV \<Rightarrow> bool" where
  "rx_ok base S k s \<longleftrightarrow> k \<le> length S \<and> rcv_NXT s = base + word_of_nat k \<and>
     (\<forall>e \<in> set (earlyData s). segment_of base S (ed_SeqNum e) (ed_data e))"

lemma seq_inj:
  assumes "base + word_of_nat a = base + (word_of_nat b :: u32)" "a < 2 ^ 32" "b < 2 ^ 32"
  shows "a = b"
proof -
  have "unat (word_of_nat a :: u32) = unat (word_of_nat b :: u32)" using assms(1) by simp
  then show ?thesis using assms(2,3) by (simp add: unsigned_of_nat take_bit_nat_eq_self)
qed

lemma segment_at:
  assumes "segment_of base S (base + word_of_nat k) d" "length S < 2 ^ 32" "k \<le> length S"
  shows "k + length d \<le> length S \<and> d = take (length d) (drop k S)"
proof -
  obtain off where off: "base + word_of_nat k = base + (word_of_nat off :: u32)" "off + length d \<le> length S"
    "d = take (length d) (drop off S)"
    using assms(1) unfolding segment_of_def by blast
  have "k = off" by (rule seq_inj [OF off(1)]) (use assms(2,3) off(2) in linarith)+
  with off show ?thesis by simp
qed

lemma take_drop_join: "k \<le> k1 \<Longrightarrow> k1 \<le> k2 \<Longrightarrow> take (k1 - k) (drop k S) @ take (k2 - k1) (drop k1 S) = take (k2 - k) (drop k S)"
proof -
  assume "k \<le> k1" "k1 \<le> k2"
  then have "take (k2 - k1) (drop k1 S) = take (k2 - k1) (drop (k1 - k) (drop k S))" by simp
  moreover have "k2 - k = (k1 - k) + (k2 - k1)" using \<open>k \<le> k1\<close> \<open>k1 \<le> k2\<close> by simp
  ultimately show ?thesis by (simp only: take_add)
qed

lemma set_removePacket: "set (removePacket es q) \<subseteq> set es"
  by (induction es) auto

lemma findNext_Some: "findNextSequence es q = Some e \<Longrightarrow> e \<in> set es \<and> ed_SeqNum e = q"
  unfolding findNextSequence_def by (rule find_in_set)

section \<open>What draining the early segments adds\<close>

text \<open>From \<open>k\<close> bytes in \<open>s\<close> to \<open>k'\<close> bytes in \<open>s'\<close>.\<close>

definition advances ::
  "('rb \<Rightarrow> bool) \<Rightarrow> ('rb \<Rightarrow> byte list) \<Rightarrow> ('rb \<Rightarrow> nat) \<Rightarrow> u32 \<Rightarrow> byte list \<Rightarrow> nat \<Rightarrow> nat \<Rightarrow> 'rb RCV \<Rightarrow> 'rb RCV \<Rightarrow> bool" where
  "advances good content cap base S k k' s s' \<longleftrightarrow> k \<le> k' \<and> good (rcv_buf s') \<and> rx_ok base S k' s' \<and>
     content (rcv_buf s') = content (rcv_buf s) @ take (k' - k) (drop k S) \<and> cap (rcv_buf s') = cap (rcv_buf s)"

lemma advances_trans:
  "advances good content cap base S k k1 s s1 \<Longrightarrow> advances good content cap base S k1 k2 s1 s2 \<Longrightarrow>
   advances good content cap base S k k2 s s2"
  by (auto simp: advances_def take_drop_join)

lemma write_advances:
  assumes env: "env_ok env good content cap" and S: "length S < 2 ^ 32"
    and s: "good (rcv_buf s)" "rx_ok base S k s"
    and d: "segment_of base S (rcv_NXT s) d" and es: "set es \<subseteq> set (earlyData s)"
    and w: "rb_Write (e_rb env) (rcv_buf s) d = Ret (n, err, b)"
  shows "err = None \<and> advances good content cap base S k (k + length d) s
    (s\<lparr>rcv_buf := b, rcv_NXT := rcv_NXT s + word_of_nat n, earlyData := es\<rparr>)"
proof -
  have k: "k \<le> length S" "rcv_NXT s = base + word_of_nat k"
    using s(2) by (simp_all add: rx_ok_def)
  have kd: "k + length d \<le> length S" "d = take (length d) (drop k S)"
    using segment_at [OF d [unfolded k(2)] S k(1)] by blast+
  show ?thesis
    using write_safe [OF env s(1), of d] w s(2) kd es
    by (auto simp: advances_def rx_ok_def algebra_simps)
qed

lemma drain_advances:
  assumes "env_ok env good content cap" "length S < 2 ^ 32"
  shows "good (rcv_buf s) \<Longrightarrow> rx_ok base S k s \<Longrightarrow>
    safe (\<lambda>s'. (\<exists>k'. advances good content cap base S k k' s s') \<and>
        findNextSequence (earlyData s') (rcv_NXT s') = None)
      (drain_early (e_rb env) s)"
proof (induction "e_rb env" s arbitrary: k rule: drain_early.induct)
  case (1 s)
  show ?case
  proof (cases "findNextSequence (earlyData s) (rcv_NXT s)")
    case None
    then show ?thesis using "1.prems" by (subst drain_early.simps) (auto simp: advances_def)
  next
    case (Some e)
    have e: "segment_of base S (rcv_NXT s) (ed_data e)"
      using findNext_Some [OF Some] "1.prems"(2) by (auto simp: rx_ok_def)
    show ?thesis
    proof (cases "rb_Write (e_rb env) (rcv_buf s) (ed_data e)")
      case (Ret x)
      obtain n err b where x: "x = (n, err, b)" by (cases x)
      let ?s = "s\<lparr>rcv_buf := b, rcv_NXT := rcv_NXT s + word_of_nat n,
        earlyData := removePacket (earlyData s) (ed_SeqNum e)\<rparr>"
      have adv: "err = None" "advances good content cap base S k (k + length (ed_data e)) s ?s"
        using write_advances [OF assms "1.prems" e set_removePacket Ret [unfolded x]] by blast+
      then have "safe (\<lambda>s'. (\<exists>k'. advances good content cap base S (k + length (ed_data e)) k' ?s s') \<and>
          findNextSequence (earlyData s') (rcv_NXT s') = None) (drain_early (e_rb env) ?s)"
        using "1.hyps" [OF Some Ret x [symmetric] refl] by (simp add: advances_def)
      then have "safe (\<lambda>s'. (\<exists>k'. advances good content cap base S k k' s s') \<and>
          findNextSequence (earlyData s') (rcv_NXT s') = None) (drain_early (e_rb env) ?s)"
        by (rule safe_mono) (use advances_trans [OF adv(2)] in blast)
      with Some Ret x adv(1) show ?thesis by (subst drain_early.simps) simp
    qed (use Some write_safe [OF assms(1) "1.prems"(1), of "ed_data e"] in \<open>simp_all add: drain_early.simps\<close>)
  qed
qed

section \<open>Data segments\<close>

text \<open>The socket after, and the ACK that was sent: it carries the next expected sequence number.\<close>

definition acked_as :: "'rb tcp_env \<Rightarrow> nat \<Rightarrow> 'rb NormalSocket \<Rightarrow> 'rb TCPStack \<Rightarrow> 'rb TCPStack \<Rightarrow> bool" where
  "acked_as env r s ts ts' \<longleftrightarrow> normals ts' r = Some s \<and>
     (\<exists>dst h eff. outbox ts' = outbox ts @ [(dst, serializeTCPPacket h [], eff)] \<and> TFlags h = TCP_ACK \<and>
        AckNum h = rcv_NXT (so_rcv s) \<and> WindowSize h = rcv_WND (so_rcv s))"

lemma send_ack_safe:
  assumes "ready env good content cap p r ts"
    and "TFlags h = TCP_ACK" "AckNum h = rcv_NXT (so_rcv s)" "WindowSize h = rcv_WND (so_rcv s)"
  shows "safe (acked_as env r s ts) (send_quiet env dst h [] (put_socket r s ts))"
proof -
  obtain eff where "SendIP (e_lib env) (e_ord1 env) (e_ord2 env) (ipStack ts) dst TCP_PROTOCOL 16
      (serializeTCPPacket h []) = Ret eff"
    using SendIP_returns [OF readyD(6,7) [OF assms(1)]] by (rule returnsE)
  then show ?thesis
    using assms(2-4) unfolding send_quiet_def sendPacket_def put_socket_def acked_as_def
    by (simp, intro exI conjI) simp_all
qed

lemma make_header_simps [simp]:
  "TFlags (make_header a b c d f w) = f" "AckNum (make_header a b c d f w) = d"
  "SeqNum (make_header a b c d f w) = c" "WindowSize (make_header a b c d f w) = w"
  "SourcePort (make_header a b c d f w) = a" "DestPort (make_header a b c d f w) = b"
  by (simp_all add: make_header_def)

lemma processInOrderData_advances:
  assumes r: "ready env good content cap p r ts" and s: "normals ts r = Some s" and S: "length S < 2 ^ 32"
    and rx: "rx_ok base S k (so_rcv s)" and d: "segment_of base S (rcv_NXT (so_rcv s)) d"
  shows "safe (\<lambda>ts'. \<exists>s' k'. acked_as env r s' ts ts' \<and> k + length d \<le> k' \<and>
      advances good content cap base S k k' (so_rcv s) (so_rcv s') \<and>
      findNextSequence (earlyData (so_rcv s')) (rcv_NXT (so_rcv s')) = None \<and> so_snd s' = so_snd s \<and>
      rcv_WND (so_rcv s') = word_of_nat (rb_Free (e_rb env) (rcv_buf (so_rcv s'))))
    (processInOrderData env r d ts)"
proof -
  have g: "good (rcv_buf (so_rcv s))"
    using socks_okD [OF readyD(8) [OF r] s] by (simp add: buffers_ok_def)
  note env = readyD(1) [OF r]
  show ?thesis
  proof (cases "rb_Write (e_rb env) (rcv_buf (so_rcv s)) d")
    case (Ret x)
    obtain n err b where x: "x = (n, err, b)" by (cases x)
    let ?rc = "(so_rcv s)\<lparr>rcv_buf := b, rcv_NXT := rcv_NXT (so_rcv s) + word_of_nat n\<rparr>"
    have "err = None \<and> advances good content cap base S k (k + length d) (so_rcv s)
        (?rc\<lparr>earlyData := earlyData (so_rcv s)\<rparr>)"
      using write_advances [OF env S g rx d subset_refl Ret [unfolded x]] by simp
    then have adv: "err = None" "advances good content cap base S k (k + length d) (so_rcv s) ?rc"
      by simp_all
    have drain: "safe (\<lambda>s'. (\<exists>k'. advances good content cap base S (k + length d) k' ?rc s') \<and>
        findNextSequence (earlyData s') (rcv_NXT s') = None) (drain_early (e_rb env) ?rc)"
      by (rule drain_advances [OF env S]) (use adv in \<open>simp_all add: advances_def\<close>)
    show ?thesis
      unfolding processInOrderData_def
      by (simp add: socket_of_def s Ret x adv(1) Let_def, rule safe_bind [OF drain])
         (rule safe_mono [OF send_ack_safe [OF r]], simp_all,
          use advances_trans [OF adv(2)] in \<open>fastforce simp: advances_def rx_ok_def\<close>)
  qed (use write_safe [OF env g, of d] s in \<open>simp_all add: processInOrderData_def socket_of_def\<close>)
qed

lemma handleData_stream:
  assumes r: "ready env good content cap p r ts" and s: "normals ts r = Some s" and S: "length S < 2 ^ 32"
    and rx: "rx_ok base S k (so_rcv s)" and d: "segment_of base S (SeqNum h) d"
  shows "safe (\<lambda>ts'. \<exists>s' k'. acked_as env r s' ts ts' \<and>
      advances good content cap base S k k' (so_rcv s) (so_rcv s') \<and>
      (SeqNum h = rcv_NXT (so_rcv s) \<longrightarrow> k + length d \<le> k' \<and>
         findNextSequence (earlyData (so_rcv s')) (rcv_NXT (so_rcv s')) = None))
    (handleData env p h d ts)"
proof (cases "SeqNum h = rcv_NXT (so_rcv s)")
  case True
  have "handleData env p h d ts = processInOrderData env r d ts"
    using True s readyD(5) [OF r] by (simp add: handleData_def Let_def socket_of_def)
  show ?thesis
    unfolding \<open>handleData env p h d ts = processInOrderData env r d ts\<close>
    by (rule safe_mono [OF processInOrderData_advances [OF r s S rx d [unfolded True]]]) blast
next
  case False
  let ?s = "s\<lparr>so_rcv := (so_rcv s)\<lparr>earlyData := earlyData (so_rcv s) @
    [\<lparr>ed_data = d, ed_SeqNum = SeqNum h, ed_Length = word_of_nat (length d)\<rparr>]\<rparr>\<rparr>"
  have "good (rcv_buf (so_rcv s))"
    using socks_okD [OF readyD(8) [OF r] s] by (simp add: buffers_ok_def)
  then have adv: "advances good content cap base S k k (so_rcv s) (so_rcv ?s)"
    using rx d by (auto simp: advances_def rx_ok_def)
  have "safe (acked_as env r ?s ts) (handleData env p h d ts)"
    using False s readyD(5) [OF r] send_ack_safe [OF r, of _ ?s]
    by (simp add: handleData_def Let_def socket_of_def)
  then show ?thesis by (rule safe_mono) (use adv False in blast)
qed

lemma write_Block:
  assumes "env_ok env good content cap" "good b" "cap b < length (content b) + length bs"
  shows "rb_Write (e_rb env) b bs = Block"
proof -
  have "length (content b) \<le> cap b" using env_okD(3) [OF assms(1)] assms(2) unfolding rb_laws_def by blast
  then have "\<not> length bs \<le> cap b - length (content b)" using assms(3) by linarith
  then show ?thesis using env_okD(3) [OF assms(1)] assms(2) unfolding rb_laws_def by meson
qed

lemma write_Ret:
  assumes "env_ok env good content cap" "good b" "length (content b) + length bs \<le> cap b"
  shows "\<exists>b'. rb_Write (e_rb env) b bs = Ret (length bs, None, b') \<and> good b' \<and>
    content b' = content b @ bs \<and> cap b' = cap b"
proof -
  have "length bs \<le> cap b - length (content b)" using assms(3) by linarith
  then show ?thesis using env_okD(3) [OF assms(1)] assms(2) unfolding rb_laws_def by meson
qed

definition waiting :: "EarlyData list \<Rightarrow> nat" where
  "waiting es = sum_list (map (\<lambda>e. length (ed_data e)) es)"

lemma waiting_remove: "findNextSequence es q = Some e \<Longrightarrow>
  waiting es = length (ed_data e) + waiting (removePacket es (ed_SeqNum e))"
  by (induction es) (auto simp: waiting_def findNextSequence_def split: if_splits dest: find_in_set)

lemma drain_not_Block:
  assumes env: "env_ok env good content cap"
  shows "good (rcv_buf s) \<Longrightarrow> length (content (rcv_buf s)) + waiting (earlyData s) \<le> cap (rcv_buf s) \<Longrightarrow>
    drain_early (e_rb env) s \<noteq> Block"
proof (induction "e_rb env" s rule: drain_early.induct)
  case (1 s)
  show ?case
  proof (cases "findNextSequence (earlyData s) (rcv_NXT s)")
    case (Some e)
    note room = waiting_remove [OF Some] "1.prems"(2)
    then obtain b where b: "rb_Write (e_rb env) (rcv_buf s) (ed_data e) = Ret (length (ed_data e), None, b)"
      "good b" "content b = content (rcv_buf s) @ ed_data e" "cap b = cap (rcv_buf s)"
      using write_Ret [OF env "1.prems"(1), of "ed_data e"] by auto
    show ?thesis
      using "1.hyps" [OF Some b(1) refl refl] b room Some by (subst drain_early.simps) simp
  qed (subst drain_early.simps, simp)
qed

lemma in_order_eq:
  assumes "ready env good content cap p r ts" "normals ts r = Some s" "SeqNum h = rcv_NXT (so_rcv s)"
  shows "handleData env p h d ts = processInOrderData env r d ts" "good (rcv_buf (so_rcv s))"
  using assms socks_okD [OF readyD(8) [OF assms(1)] assms(2)] readyD(5) [OF assms(1)]
  by (simp_all add: handleData_def Let_def socket_of_def buffers_ok_def)

lemma in_order_block:
  assumes r: "ready env good content cap p r ts" and s: "normals ts r = Some s" "SeqNum h = rcv_NXT (so_rcv s)"
    and full: "cap (rcv_buf (so_rcv s)) < length (content (rcv_buf (so_rcv s))) + length d"
  shows "handleData env p h d ts = Block"
  using write_Block [OF readyD(1) [OF r] in_order_eq(2) [OF r s] full] s(1)
  by (simp add: in_order_eq(1) [OF r s] processInOrderData_def socket_of_def)

lemma in_order_returns:
  assumes r: "ready env good content cap p r ts" and s: "normals ts r = Some s" "SeqNum h = rcv_NXT (so_rcv s)"
    and room: "length (content (rcv_buf (so_rcv s))) + length d + waiting (earlyData (so_rcv s)) \<le> cap (rcv_buf (so_rcv s))"
  shows "returns (handleData env p h d ts)"
proof -
  obtain b where b: "rb_Write (e_rb env) (rcv_buf (so_rcv s)) d = Ret (length d, None, b)" "good b"
    "content b = content (rcv_buf (so_rcv s)) @ d" "cap b = cap (rcv_buf (so_rcv s))"
    using write_Ret [OF readyD(1) [OF r] in_order_eq(2) [OF r s], of d] room by auto
  have "drain_early (e_rb env) ((so_rcv s)\<lparr>rcv_buf := b, rcv_NXT := rcv_NXT (so_rcv s) + word_of_nat (length d)\<rparr>) \<noteq> Block"
    by (rule drain_not_Block [OF readyD(1) [OF r]]) (use b room in simp_all)
  then have "processInOrderData env r d ts \<noteq> Block"
    using b(1) s(1) send_put_not_Block [OF r]
    by (auto simp: processInOrderData_def socket_of_def Let_def bindG_eq_Block)
  moreover have "processInOrderData env r d ts \<noteq> Panic"
    by (rule safe_not_Panic [OF processInOrderData_safe [OF r]])
  ultimately show ?thesis by (cases "processInOrderData env r d ts") (simp_all add: in_order_eq(1) [OF r s])
qed

section \<open>The properties\<close>

text \<open>
  C28. Reassembly. Let the socket have taken over the first \<open>k\<close> bytes of the peer's stream \<open>S\<close>
  (below 2 ^ 32 bytes), with only pieces of \<open>S\<close> waiting. When \<open>handleData\<close> returns from a segment
  of \<open>S\<close>, in order or not, old or new, the receive buffer has been extended by exactly the next
  bytes \<open>k .. k'\<close> of \<open>S\<close>; an in-order segment is taken over completely, with every waiting
  segment that now follows; and the ACK sent carries the sequence number of byte \<open>k'\<close>.
\<close>

theorem reassembles_stream:
  assumes "env_ok env good content cap" "host_ok good ts" "valid ts p"
    and "SocketStruct (deref ts p) = NormalRef r" "normals ts r = Some s"
    and "length S < 2 ^ 32" "rx_ok base S k (so_rcv s)" "segment_of base S (SeqNum h) d"
    and "handleData env p h d ts = Ret ts'"
  shows "\<exists>s' k'. normals ts' r = Some s' \<and> k \<le> k' \<and> rx_ok base S k' (so_rcv s') \<and>
    content (rcv_buf (so_rcv s')) = content (rcv_buf (so_rcv s)) @ take (k' - k) (drop k S) \<and>
    (SeqNum h = rcv_NXT (so_rcv s) \<longrightarrow> k + length d \<le> k' \<and>
       findNextSequence (earlyData (so_rcv s')) (rcv_NXT (so_rcv s')) = None) \<and>
    (\<exists>dst ack eff. outbox ts' = outbox ts @ [(dst, serializeTCPPacket ack [], eff)] \<and>
       AckNum ack = base + word_of_nat k')"
proof -
  have "ready env good content cap p r ts" using assms(1-4) by (simp add: ready_def)
  from handleData_stream [OF this assms(5-8)] assms(9) show ?thesis
    unfolding advances_def acked_as_def rx_ok_def by simp metis
qed

text \<open>
  C29. When a segment stops the listener. An in-order segment that does not fit into the free part
  of the receive buffer makes the handler wait inside the interface's listening goroutine until the
  application reads; one that fits together with everything waiting never does.
\<close>

theorem data_blocks_listener:
  assumes "env_ok env good content cap" "host_ok good ts" "valid ts p"
    and "SocketStruct (deref ts p) = NormalRef r" "normals ts r = Some s"
    and "SeqNum h = rcv_NXT (so_rcv s)"
  shows "(cap (rcv_buf (so_rcv s)) < length (content (rcv_buf (so_rcv s))) + length d \<longrightarrow>
       handleData env p h d ts = Block) \<and>
    (length (content (rcv_buf (so_rcv s))) + length d + waiting (earlyData (so_rcv s)) \<le> cap (rcv_buf (so_rcv s)) \<longrightarrow>
       returns (handleData env p h d ts))"
  using in_order_block [of env good content cap p r ts s h d] in_order_returns [of env good content cap p r ts s h d] assms
  by (auto simp: ready_def)

section \<open>Witnesses\<close>

definition ex_early :: "list_rb NormalSocket" where
  "ex_early = ex_socket\<lparr>so_rcv := ex_rcv\<lparr>earlyData :=
     [\<lparr>ed_data = [7, 8], ed_SeqNum = 5004, ed_Length = 2\<rparr>]\<rparr>\<rparr>"

definition ex_data_host :: "list_rb TCPStack" where
  "ex_data_host = (ex_host TCP_ESTABLISHED)\<lparr>normals := [1 \<mapsto> ex_early]\<rparr>"

definition ex_data_header :: TCPHeader where
  "ex_data_header = ex_fin_header\<lparr>TFlags := TCP_ACK\<rparr>"

lemma ex_data_ready:
  "host_ok list_rb_good ex_data_host" "valid ex_data_host (0, 1)"
  "SocketStruct (deref ex_data_host (0, 1)) = NormalRef 1" "normals ex_data_host 1 = Some ex_early"
proof -
  have "buffers_ok list_rb_good ex_early"
    by (simp add: buffers_ok_def ex_early_def ex_socket_def ex_rcv_def ex_snd_def list_rb_good_def)
  then show "host_ok list_rb_good ex_data_host"
    using ex_host_ok [of TCP_ESTABLISHED] quiet_host_ok [of list_rb_good "ex_host TCP_ESTABLISHED" ex_data_host]
    by (simp add: quiet_def ex_data_host_def socks_ok_def)
qed (simp_all add: ex_data_host_def valid_def deref_def, simp add: ex_conn_def)

theorem reassembles_stream_witness:
  "\<exists>ts' s'. handleData ex_env (0, 1) ex_data_header [4, 5, 6] ex_data_host = Ret ts' \<and> normals ts' 1 = Some s' \<and>
     take 3 (fst (rcv_buf (so_rcv s'))) = [4, 5, 6]"
proof -
  have q: "SeqNum ex_data_header = rcv_NXT (so_rcv ex_early)"
    by (simp add: ex_data_header_def ex_fin_header_def ex_early_def ex_rcv_def)
  have "returns (handleData ex_env (0, 1) ex_data_header [4, 5, 6] ex_data_host)"
    by (rule in_order_returns [of ex_env list_rb_good fst snd _ _ _ ex_early])
       (use ex_env_ok ex_data_ready q in \<open>simp_all add: ready_def waiting_def ex_early_def ex_socket_def ex_rcv_def\<close>)
  then obtain ts' where ts': "handleData ex_env (0, 1) ex_data_header [4, 5, 6] ex_data_host = Ret ts'"
    by (rule returnsE)
  have "segment_of 5001 [4, 5, 6, 7, 8] 5004 [7, 8]" "segment_of 5001 [4, 5, 6, 7, 8] 5001 [4, 5, 6]"
    unfolding segment_of_def by (rule exI [of _ 3], simp) (rule exI [of _ 0], simp)
  then have rx: "rx_ok 5001 [4, 5, 6, 7, 8] 0 (so_rcv ex_early)"
    "segment_of 5001 [4, 5, 6, 7, 8] (SeqNum ex_data_header) [4, 5, 6]"
    by (simp_all add: rx_ok_def ex_early_def ex_rcv_def q)
  obtain s' k' where s': "normals ts' 1 = Some s'" "Suc (Suc (Suc 0)) \<le> k'" "fst (rcv_buf (so_rcv s')) = take k' [4, 5, 6, 7, 8]"
    using reassembles_stream [OF ex_env_ok ex_data_ready _ rx ts'] q
    by (auto simp: ex_early_def ex_rcv_def)
  then have "take 3 (fst (rcv_buf (so_rcv s'))) = [4, 5, 6]" by (simp add: min_def)
  with ts' s'(1) show ?thesis by blast
qed

theorem data_blocks_listener_witness:
  "handleData ex_env (0, 1) ex_data_header (replicate 65536 0) ex_data_host = Block"
  using data_blocks_listener [OF ex_env_ok ex_data_ready, of ex_data_header "replicate 65536 0"]
  by (simp add: ex_data_header_def ex_fin_header_def ex_early_def ex_rcv_def)

end
