(* ===== verification/TCP_Socket.thy ===== *)
theory TCP_Socket
  imports TCP_Handle
begin

text \<open>
  The socket interface (\<open>pkg/tcpstack/normal_socket.go\<close> without the sending loop,
  \<open>listen_socket.go\<close>) and the goroutine \<open>manageRetransmissions\<close> of \<open>retransmission.go\<close>.
  \<^item> \<open>VConnect\<close> is two steps: \<open>VConnect_start\<close> up to the \<open>select\<close>, and \<open>VConnect_wait\<close>, the
    \<open>select\<close>; when both its channels are ready, \<open>pick\<close> is the runtime's choice.
  \<^item> \<open>nil\<close> returned by \<open>VFindTableEntry\<close> and then dereferenced is \<open>Panic\<close>.
  \<^item> An error is a message or an error of the ring buffer package.
\<close>

datatype sock_error = Msg string | RbErr rb_error

definition find_own :: "'rb TCPStack \<Rightarrow> 'rb NormalSocket \<Rightarrow> entry_ptr option" where
  "find_own ts ns =
     VFindTableEntry ts (ns_LocalAddress ns) (ns_LocalPort ns) (ns_RemoteAddress ns) (ns_RemotePort ns)"

section \<open>Closing\<close>

definition push_packet :: "InFlightPacket \<Rightarrow> 'rb SND \<Rightarrow> 'rb SND" where
  "push_packet pkt s = s\<lparr>inFlightPackets := inFlightPackets s @ [pkt]\<rparr>"

definition VClose :: "'rb tcp_env \<Rightarrow> nat \<Rightarrow> 'rb TCPStack \<Rightarrow> (sock_error option \<times> 'rb TCPStack) go" where
  "VClose env r ts =
     bindG (socket_of ts r) (\<lambda>ns.
       case find_own ts ns of
         None \<Rightarrow> Panic
       | Some p \<Rightarrow>
           if State (deref ts p) \<noteq> TCP_ESTABLISHED \<and> State (deref ts p) \<noteq> TCP_CLOSE_WAIT
           then Ret (Some (Msg ''connection not established''), ts)
           else
             (let header = make_header (ns_LocalPort ns) (ns_RemotePort ns) (ns_SeqNum ns)
                    (rcv_NXT (so_rcv ns)) TCP_FIN (rcv_WND (so_rcv ns));
                  sn = (if inFlightPackets (so_snd ns) = [] then reset_rto (e_now env) (so_snd ns) else so_snd ns);
                  sn = push_packet \<lparr>if_data = [], if_SeqNum = ns_SeqNum ns, if_Length = 0,
                    timeSent = e_now env, if_flags = TCP_FIN, windowFlags = 0\<rparr> sn;
                  ts = put_socket r (ns\<lparr>so_snd := sn\<rparr>) ts
              in bindG (sendPacket env (ns_RemoteAddress ns) (serializeTCPPacket header []) ts) (\<lambda>(err, ts).
                   if err \<noteq> None then Ret (map_option Msg err, ts)
                   else
                     (case find_own ts ns of
                        None \<Rightarrow> Panic
                      | Some p \<Rightarrow>
                          Ret (None,
                            if State (deref ts p) = TCP_ESTABLISHED then set_State p TCP_FIN_WAIT_1 ts
                            else if State (deref ts p) = TCP_CLOSE_WAIT then set_State p TCP_LAST_ACK ts
                            else ts)))))"

section \<open>Connecting\<close>

definition first_address :: "'rb tcp_env \<Rightarrow> 'rb TCPStack \<Rightarrow> Addr" where
  "first_address env ts =
     (case find_iface (ipStack ts) (e_ord1 env) (\<lambda>_. True) of
        None \<Rightarrow> NoAddr
      | Some n \<Rightarrow> (case Interfaces (ipStack ts) n of None \<Rightarrow> NoAddr | Some i \<Rightarrow> IPAddr i))"

definition new_client ::
  "'rb tcp_env \<Rightarrow> int \<Rightarrow> Addr \<Rightarrow> u16 \<Rightarrow> Addr \<Rightarrow> u16 \<Rightarrow> 'rb NormalSocket" where
  "new_client env sid localAddress localPort remoteAddress remotePort =
     (let isn = generateInitialSeqNum (e_now env - unix_epoch) in
      \<lparr>SID = sid, ns_LocalAddress = localAddress, ns_LocalPort = localPort,
       ns_RemoteAddress = remoteAddress, ns_RemotePort = remotePort, ns_SeqNum = isn, ns_AckNum = 0,
       so_snd = \<lparr>snd_buf = new_buffer env, UNA = isn, snd_NXT = isn + 1, snd_WND = BUFFER_SIZE,
         ISS = isn, calculatedRTO = 1 * Second, RTOtimer = timer_Stop (NewTimer (e_now env) (1 * Second)),
         SRTT = 0, RTTVAR = 0, retransmissions = 0, inFlightPackets = []\<rparr>,
       so_rcv = \<lparr>rcv_buf = new_buffer env, rcv_WND = BUFFER_SIZE, rcv_NXT = 0, IRS = 0, earlyData = []\<rparr>,
       lastActive = e_now env, establishedChan = True\<rparr>)"

text \<open>The new socket, the entry it inserted, the error, if any, and the stack.\<close>

definition VConnect_start ::
  "'rb tcp_env \<Rightarrow> Addr \<Rightarrow> u16 \<Rightarrow> 'rb TCPStack \<Rightarrow> (nat \<times> TCPTableEntry \<times> sock_error option \<times> 'rb TCPStack) go" where
  "VConnect_start env remoteAddress remotePort ts =
     (let (sid, ts) = generateSID ts;
          (localPort, ts) = allocatePort ts;
          ns = new_client env sid (first_address env ts) localPort remoteAddress remotePort;
          r = nextRef ts;
          ts = ts\<lparr>nextRef := r + 1, normals := (normals ts)(r \<mapsto> ns)\<rparr>;
          entry = \<lparr>LocalAddress = ns_LocalAddress ns, LocalPort = ns_LocalPort ns,
            RemoteAddress = remoteAddress, RemotePort = remotePort, State = TCP_SYN_SENT,
            SocketStruct = NormalRef r\<rparr>;
          ts = VInsertTableEntry env entry ts;
          header = make_header (ns_LocalPort ns) remotePort (ns_SeqNum ns) 0 TCP_SYN (rcv_WND (so_rcv ns));
          sn = reset_rto (e_now env) (push_packet \<lparr>if_data = [], if_SeqNum = ns_SeqNum ns, if_Length = 0,
            timeSent = e_now env, if_flags = TCP_SYN, windowFlags = 0\<rparr> (so_snd ns))
      in mapG (\<lambda>(err, ts). (r, entry, map_option Msg err, ts))
           (sendPacket env remoteAddress (serializeTCPPacket header [])
             (put_socket r (ns\<lparr>so_snd := sn\<rparr>) ts)))"

definition VConnect_wait ::
  "'rb tcp_env \<Rightarrow> bool \<Rightarrow> nat \<Rightarrow> TCPTableEntry \<Rightarrow> Time \<Rightarrow> 'rb TCPStack \<Rightarrow> (sock_error option \<times> 'rb TCPStack) go" where
  "VConnect_wait env pick r entry since ts =
     bindG (socket_of ts r) (\<lambda>ns.
       let established = (\<not> establishedChan ns);
           timeout = (since + HANDSHAKE_TIMEOUT \<le> e_now env)
       in if established \<and> (pick \<or> \<not> timeout) then Ret (None, ts)
          else if timeout
          then mapG (Pair (Some (Msg ''connection timeout''))) (VDeleteTableEntry entry ts)
          else Block)"

section \<open>Listening\<close>

definition VListen :: "'rb tcp_env \<Rightarrow> u16 \<Rightarrow> 'rb TCPStack \<Rightarrow> nat \<times> 'rb TCPStack" where
  "VListen env localPort ts =
     (let (sid, ts) = generateSID ts;
          r = nextRef ts;
          ls = \<lparr>ls_SID = sid, ls_localPort = localPort, acceptQueue = []\<rparr>;
          ts = ts\<lparr>nextRef := r + 1, listeners := (listeners ts)(r \<mapsto> ls)\<rparr>
      in (r, VInsertTableEntry env \<lparr>LocalAddress = IPv4 0, LocalPort = localPort, RemoteAddress = IPv4 0,
               RemotePort = 0, State = TCP_LISTEN, SocketStruct = ListenRef r\<rparr> ts))"

definition VAccept :: "nat \<Rightarrow> 'rb TCPStack \<Rightarrow> (nat \<times> 'rb TCPStack) go" where
  "VAccept lr ts =
     (case listeners ts lr of
        None \<Rightarrow> Panic
      | Some l \<Rightarrow>
          (case acceptQueue l of
             [] \<Rightarrow> Block
           | r # rest \<Rightarrow> Ret (r, ts\<lparr>listeners := (listeners ts)(lr \<mapsto> l\<lparr>acceptQueue := rest\<rparr>)\<rparr>)))"

section \<open>Reading\<close>

definition VRead ::
  "'rb tcp_env \<Rightarrow> nat \<Rightarrow> nat \<Rightarrow> 'rb TCPStack \<Rightarrow> (byte list \<times> sock_error option \<times> 'rb TCPStack) go" where
  "VRead env r n ts =
     bindG (socket_of ts r) (\<lambda>socket.
       case find_own ts socket of
         None \<Rightarrow> Panic
       | Some p \<Rightarrow>
           if State (deref ts p) \<noteq> TCP_ESTABLISHED \<and> State (deref ts p) \<noteq> TCP_FIN_WAIT_1 \<and>
              State (deref ts p) \<noteq> TCP_FIN_WAIT_2
           then Ret ([], Some (Msg ''connection not established''), ts)
           else bindG (rb_Read (e_rb env) (rcv_buf (so_rcv socket)) n) (\<lambda>(data, err, buf).
             let rc = (so_rcv socket)\<lparr>rcv_buf := buf\<rparr>
             in case err of
                  Some e \<Rightarrow> Ret ([], Some (RbErr e), put_socket r (socket\<lparr>so_rcv := rc\<rparr>) ts)
                | None \<Rightarrow>
                    Ret (data, None, put_socket r (socket\<lparr>so_rcv :=
                      rc\<lparr>rcv_WND := word_of_nat (rb_Free (e_rb env) buf)\<rparr>\<rparr>) ts)))"

section \<open>Single segments\<close>

definition sendRST :: "'rb tcp_env \<Rightarrow> nat \<Rightarrow> 'rb TCPStack \<Rightarrow> (sock_error option \<times> 'rb TCPStack) go" where
  "sendRST env r ts =
     bindG (socket_of ts r) (\<lambda>socket.
       mapG (\<lambda>(err, ts). (map_option Msg err, ts))
         (sendPacket env (ns_RemoteAddress socket) (serializeTCPPacket
            (make_header (ns_LocalPort socket) (ns_RemotePort socket) (snd_NXT (so_snd socket))
              (rcv_NXT (so_rcv socket)) TCP_RST 0) []) ts))"

text \<open>The header of a segment with data: it announces the free room of the receive buffer.\<close>

definition data_header :: "'rb tcp_env \<Rightarrow> 'rb NormalSocket \<Rightarrow> TCPHeader" where
  "data_header env socket = make_header (ns_LocalPort socket) (ns_RemotePort socket) (snd_NXT (so_snd socket))
     (rcv_NXT (so_rcv socket)) TCP_ACK (word_of_nat (rb_Free (e_rb env) (rcv_buf (so_rcv socket))))"

definition data_packet :: "'rb tcp_env \<Rightarrow> 'rb NormalSocket \<Rightarrow> byte list \<Rightarrow> InFlightPacket" where
  "data_packet env socket data = \<lparr>if_data = data, if_SeqNum = snd_NXT (so_snd socket),
     if_Length = word_of_nat (length data), timeSent = e_now env, if_flags = TCP_ACK, windowFlags = 0\<rparr>"

definition sendDataPacket ::
  "'rb tcp_env \<Rightarrow> nat \<Rightarrow> byte list \<Rightarrow> 'rb TCPStack \<Rightarrow> (sock_error option \<times> 'rb TCPStack) go" where
  "sendDataPacket env r data ts =
     bindG (socket_of ts r) (\<lambda>socket.
     bindG (sendPacket env (ns_RemoteAddress socket) (serializeTCPPacket (data_header env socket) data) ts)
       (\<lambda>(err, ts).
          if err \<noteq> None then Ret (map_option Msg err, ts)
          else Ret (None, put_socket r (socket\<lparr>so_snd :=
                 (push_packet (data_packet env socket data) (so_snd socket))
                   \<lparr>snd_NXT := snd_NXT (so_snd socket) + word_of_nat (length data)\<rparr>\<rparr>) ts)))"

section \<open>The retransmission goroutine\<close>

text \<open>One round of \<open>manageRetransmissions\<close>: nothing until the timer's channel holds a tick.\<close>

definition manager_tick :: "'rb tcp_env \<Rightarrow> nat \<Rightarrow> 'rb TCPStack \<Rightarrow> 'rb TCPStack go" where
  "manager_tick env r ts =
     bindG (socket_of ts r) (\<lambda>socket.
       let tm = timer_expire (e_now env) (RTOtimer (so_snd socket))
       in if pending tm
          then bindG (retransmitPacket env r (put_socket r (socket\<lparr>so_snd :=
                 (so_snd socket)\<lparr>RTOtimer := tm\<lparr>pending := False\<rparr>\<rparr>\<rparr>) ts)) (\<lambda>(err, ts).
                 if err \<noteq> None then mapG snd (VClose env r ts) else Ret ts)
          else Ret ts)"

end
