(* ===== verification/TCP_Socket_Safety.thy ===== *)
theory TCP_Socket_Safety
  imports TCP_Socket TCP_States
begin

text \<open>
  The socket operations keep the host well formed, and what each does to the table. They panic
  only when the socket's own entry is no longer in the table.
\<close>

section \<open>Sending\<close>

lemma sendPacket_Ret:
  assumes "stack_ok (ipStack ts)" "marshals (e_lib env)"
  shows "\<exists>err eff. sendPacket env dst data ts = Ret (err, ts\<lparr>outbox := outbox ts @ [(dst, data, eff)]\<rparr>) \<and>
    (err = None \<longleftrightarrow> (\<exists>x. eff = Inr x))"
proof -
  obtain y where y: "SendIP (e_lib env) (e_ord1 env) (e_ord2 env) (ipStack ts) dst TCP_PROTOCOL 16 data = Ret y"
    using SendIP_returns [OF assms] by (rule returnsE)
  show ?thesis
    by (rule exI [of _ "case y of Inl e \<Rightarrow> Some e | Inr _ \<Rightarrow> None"], rule exI [of _ y])
       (simp add: sendPacket_def y split: sum.split)
qed

lemma host_okD:
  assumes "host_ok good ts"
  shows "slice_ok (tbl ts)" "table_wf ts" "socks_ok good ts" "stack_ok (ipStack ts)" "closers_ok ts" "refs_ok ts"
  using assms by (simp_all add: host_ok_def table_wf_def)

lemma sock_good: "host_ok good ts \<Longrightarrow> normals ts r = Some s \<Longrightarrow> buffers_ok good s"
  using host_okD(3) socks_okD by blast

lemma put_host_ok:
  "host_ok good ts \<Longrightarrow> r \<in> dom (normals ts) \<Longrightarrow> buffers_ok good s \<Longrightarrow> host_ok good (put_socket r s ts)"
  using quiet_host_ok put_socket_quiet by blast

lemma table_put_socket [simp]: "table_entries (put_socket r s ts) = table_entries ts" "tbl (put_socket r s ts) = tbl ts"
  by (simp_all add: put_socket_def)

lemma find_own_quiet: "quiet good ts ts' \<Longrightarrow> find_own ts' = find_own ts"
  using quiet_VFind by (fastforce simp: find_own_def)

lemma find_own_valid: "host_ok good ts \<Longrightarrow> find_own ts ns = Some p \<Longrightarrow> valid ts p"
  using VFind_valid host_okD(1) unfolding find_own_def by blast

section \<open>Closing\<close>

definition close_state :: "TCPState \<Rightarrow> TCPState" where
  "close_state st = (if st = TCP_ESTABLISHED then TCP_FIN_WAIT_1 else if st = TCP_CLOSE_WAIT then TCP_LAST_ACK else st)"

definition fin_packet :: "'rb tcp_env \<Rightarrow> 'rb NormalSocket \<Rightarrow> InFlightPacket" where
  "fin_packet env ns = \<lparr>if_data = [], if_SeqNum = ns_SeqNum ns, if_Length = 0,
     timeSent = e_now env, if_flags = TCP_FIN, windowFlags = 0\<rparr>"

definition with_fin :: "'rb tcp_env \<Rightarrow> 'rb NormalSocket \<Rightarrow> 'rb NormalSocket" where
  "with_fin env ns = ns\<lparr>so_snd := push_packet (fin_packet env ns)
     (if inFlightPackets (so_snd ns) = [] then reset_rto (e_now env) (so_snd ns) else so_snd ns)\<rparr>"

definition fin_header :: "'rb NormalSocket \<Rightarrow> TCPHeader" where
  "fin_header ns = make_header (ns_LocalPort ns) (ns_RemotePort ns) (ns_SeqNum ns)
     (rcv_NXT (so_rcv ns)) TCP_FIN (rcv_WND (so_rcv ns))"

lemma snd_buf_push [simp]: "snd_buf (push_packet p s) = snd_buf s"
  by (simp add: push_packet_def)

lemma with_fin_good: "buffers_ok good ns \<Longrightarrow> buffers_ok good (with_fin env ns)"
  by (simp add: with_fin_def buffers_ok_def)

text \<open>On an open connection: one FIN, with the sequence number of the socket, and the new state.\<close>

lemma VClose_open:
  assumes env: "env_ok env good content cap" and ok: "host_ok good ts" and ns: "normals ts r = Some ns"
    and p: "find_own ts ns = Some p" and st: "State (deref ts p) \<in> {TCP_ESTABLISHED, TCP_CLOSE_WAIT}"
  shows "\<exists>err eff. let ts1 = (put_socket r (with_fin env ns) ts)\<lparr>outbox := outbox ts @
        [(ns_RemoteAddress ns, serializeTCPPacket (fin_header ns) [], eff)]\<rparr> in
      VClose env r ts = Ret (map_option Msg err,
        if err = None then set_State p (close_state (State (deref ts p))) ts1 else ts1) \<and>
      (err = None \<longleftrightarrow> (\<exists>x. eff = Inr x)) \<and> quiet good ts ts1"
proof -
  let ?ts0 = "put_socket r (with_fin env ns) ts"
  have q0: "quiet good ts ?ts0"
    using put_socket_quiet [of r ts good "with_fin env ns"] ns with_fin_good [OF sock_good [OF ok ns]] by blast
  obtain err eff where send: "sendPacket env (ns_RemoteAddress ns) (serializeTCPPacket (fin_header ns) []) ?ts0 =
      Ret (err, ?ts0\<lparr>outbox := outbox ?ts0 @ [(ns_RemoteAddress ns, serializeTCPPacket (fin_header ns) [], eff)]\<rparr>)"
    and err: "err = None \<longleftrightarrow> (\<exists>x. eff = Inr x)"
    using sendPacket_Ret [of ?ts0 env] host_okD(4) [OF ok] env_okD(2) [OF env] by (fastforce simp: put_socket_def)
  let ?ts1 = "?ts0\<lparr>outbox := outbox ts @ [(ns_RemoteAddress ns, serializeTCPPacket (fin_header ns) [], eff)]\<rparr>"
  have q1: "quiet good ts ?ts1" by (rule quiet_trans [OF q0 outbox_quiet])
  have own: "find_own ?ts1 ns = Some p" "deref ?ts1 p = deref ts p"
    using find_own_quiet [OF q1] p quiet_deref [OF q1] by simp_all
  have out: "outbox ?ts0 = outbox ts" by (simp add: put_socket_def)
  have "VClose env r ts = Ret (map_option Msg err,
      if err = None then set_State p (close_state (State (deref ts p))) ?ts1 else ?ts1)"
    using st own p ns send [unfolded out] 
    by (auto simp: VClose_def socket_of_def Let_def with_fin_def fin_header_def fin_packet_def close_state_def)
  with err q1 show ?thesis unfolding Let_def by blast
qed

lemma VClose_safe:
  assumes env: "env_ok env good content cap" and ok: "host_ok good ts" and ns: "normals ts r = Some ns"
    and p: "find_own ts ns = Some p"
  shows "safe (\<lambda>(err, ts'). host_ok good ts') (VClose env r ts)"
proof (cases "State (deref ts p) \<in> {TCP_ESTABLISHED, TCP_CLOSE_WAIT}")
  case True
  obtain err ts1 where run: "VClose env r ts = Ret (map_option Msg err,
      if err = None then set_State p (close_state (State (deref ts p))) ts1 else ts1)" and q: "quiet good ts ts1"
    using VClose_open [OF env ok ns p True] unfolding Let_def by blast
  have ok1: "host_ok good ts1" by (rule quiet_host_ok [OF q ok])
  have v: "valid ts1 p" using find_own_valid [OF ok p] quiet_valid [OF q] by simp
  have "State (deref ts1 p) \<noteq> TCP_LISTEN" using True quiet_deref [OF q] by auto
  then obtain x where "SocketStruct (deref ts1 p) = NormalRef x"
    using host_ok_entry [OF ok1 v] by (cases "SocketStruct (deref ts1 p)") (auto simp: entry_ok_def)
  then have "host_ok good (set_State p (close_state (State (deref ts p))) ts1)"
    by (rule set_State_host_ok [OF ok1 v]) (use True in \<open>auto simp: close_state_def\<close>)
  with run ok1 show ?thesis by simp
next
  case False
  then have "VClose env r ts = Ret (Some (Msg ''connection not established''), ts)"
    using p ns by (simp add: VClose_def socket_of_def)
  with ok show ?thesis by simp
qed

section \<open>Retransmission\<close>

lemma retransmit_safe:
  assumes env: "env_ok env good content cap" and ok: "host_ok good ts" and r: "r \<in> dom (normals ts)"
  shows "safe (\<lambda>(err, ts'). quiet good ts ts') (retransmitPacket env r ts)"
  unfolding retransmitPacket_def
proof (rule safe_bind [OF socket_of_safe [OF r]])
  fix s assume s: "normals ts r = Some s"
  have b: "buffers_ok good s" by (rule sock_good [OF ok s])
  have "safe (\<lambda>(err, ts'). quiet good ts ts')
    (bindG (sendPacket env (ns_RemoteAddress s) pkt ts) (\<lambda>(err, ts). if err \<noteq> None then Ret (err, ts)
       else Ret (None, put_socket r (s\<lparr>so_snd := reset_rto t (so_snd s\<lparr>inFlightPackets := f, retransmissions := n, calculatedRTO := rto\<rparr>)\<rparr>) ts)))"
    for pkt t f n rto
  proof -
    obtain err eff where send: "sendPacket env (ns_RemoteAddress s) pkt ts =
        Ret (err, ts\<lparr>outbox := outbox ts @ [(ns_RemoteAddress s, pkt, eff)]\<rparr>)"
      using sendPacket_Ret [OF host_okD(4) [OF ok] env_okD(2) [OF env]] by blast
    have "quiet good ts (put_socket r (s\<lparr>so_snd := u\<rparr>) (ts\<lparr>outbox := x\<rparr>))" if "snd_buf u = snd_buf (so_snd s)" for u x
      using quiet_trans [OF outbox_quiet put_socket_quiet] r buffers_ok_so_snd [OF b that] by simp
    then show ?thesis by (simp add: send)
  qed
  then show "safe (\<lambda>(err, ts'). quiet good ts ts')
    (case getFirstUnackedPacket (so_snd s) of None \<Rightarrow> Ret (None, ts)
     | Some packet \<Rightarrow> if RTO_MAX_RETRIES < retransmissions (so_snd s)
         then Ret (Some ''max retransmissions reached'', ts)
         else let header = \<lparr>SourcePort = ns_LocalPort s, DestPort = ns_RemotePort s, SeqNum = if_SeqNum packet,
                AckNum = rcv_NXT (so_rcv s), DataOffset = 5, TFlags = if_flags packet,
                WindowSize = windowFlags packet, TChecksum = 0, UrgentPtr = 0\<rparr>;
              tcpPacket = serializeTCPPacket header (if_data packet)
            in bindG (sendPacket env (ns_RemoteAddress s) tcpPacket ts) (\<lambda>(err, ts). if err \<noteq> None then Ret (err, ts)
                 else let u = so_snd s; newPackets = filter (\<lambda>p. if_SeqNum p \<noteq> if_SeqNum packet) (inFlightPackets u);
                       u = u\<lparr>inFlightPackets := newPackets @ [\<lparr>if_data = if_data packet, if_SeqNum = if_SeqNum packet,
                              if_Length = 0, timeSent = e_now env, if_flags = if_flags packet,
                              windowFlags = windowFlags packet\<rparr>],
                            retransmissions := retransmissions u + 1, calculatedRTO := double_rto (calculatedRTO u)\<rparr>
                      in Ret (None, put_socket r (s\<lparr>so_snd := reset_rto (e_now env) u\<rparr>) ts)))"
    by (simp add: Let_def split: option.split cong: if_cong)
qed

lemma VClose_Ret:
  assumes "env_ok env good content cap" "host_ok good ts" "VClose env r ts = Ret (err, ts')"
  shows "host_ok good ts'"
proof -
  obtain ns where ns: "normals ts r = Some ns" "find_own ts ns \<noteq> None"
    using assms(3) by (auto simp: VClose_def socket_of_def split: option.splits)
  then show ?thesis using VClose_safe [OF assms(1,2) ns(1)] assms(3) by auto
qed

lemma manager_Ret:
  assumes env: "env_ok env good content cap" and ok: "host_ok good ts" and run: "manager_tick env r ts = Ret ts'"
  shows "host_ok good ts'"
proof -
  obtain ns where ns: "normals ts r = Some ns"
    using run by (auto simp: manager_tick_def socket_of_def split: option.splits)
  let ?tm = "timer_expire (e_now env) (RTOtimer (so_snd ns))"
  let ?ts = "put_socket r (ns\<lparr>so_snd := so_snd ns\<lparr>RTOtimer := ?tm\<lparr>pending := False\<rparr>\<rparr>\<rparr>) ts"
  have ok1: "host_ok good ?ts"
    by (rule put_host_ok [OF ok]) (use ns sock_good [OF ok ns] in \<open>auto simp: buffers_ok_def\<close>)
  show ?thesis
  proof (cases "pending ?tm")
    case True
    then obtain err ts1 where r: "retransmitPacket env r ?ts = Ret (err, ts1)"
      and rest: "(if err \<noteq> None then mapG snd (VClose env r ts1) else Ret ts1) = Ret ts'"
      using run ns by (auto simp: manager_tick_def socket_of_def Let_def bindG_eq_Ret)
    have "quiet good ?ts ts1"
      using retransmit_safe [OF env ok1, of r] r by (simp add: put_socket_def)
    then have "host_ok good ts1" by (rule quiet_host_ok [OF _ ok1])
    with rest show ?thesis by (auto simp: mapG_eq_Ret split: if_splits intro: VClose_Ret [OF env])
  qed (use run ns ok in \<open>simp add: manager_tick_def socket_of_def Let_def\<close>)
qed

section \<open>Connecting\<close>

lemma new_client_good: "env_ok env good content cap \<Longrightarrow> buffers_ok good (new_client env sid la lp ra rp)"
  using new_buffer_good [of env good content cap] by (simp add: buffers_ok_def new_client_def Let_def)

definition client_entry :: "'rb NormalSocket \<Rightarrow> nat \<Rightarrow> TCPTableEntry" where
  "client_entry ns r = \<lparr>LocalAddress = ns_LocalAddress ns, LocalPort = ns_LocalPort ns,
     RemoteAddress = ns_RemoteAddress ns, RemotePort = ns_RemotePort ns, State = TCP_SYN_SENT,
     SocketStruct = NormalRef r\<rparr>"

definition syn_packet :: "'rb tcp_env \<Rightarrow> 'rb NormalSocket \<Rightarrow> InFlightPacket" where
  "syn_packet env ns = \<lparr>if_data = [], if_SeqNum = ns_SeqNum ns, if_Length = 0,
     timeSent = e_now env, if_flags = TCP_SYN, windowFlags = 0\<rparr>"

definition with_syn :: "'rb tcp_env \<Rightarrow> 'rb NormalSocket \<Rightarrow> 'rb NormalSocket" where
  "with_syn env ns = ns\<lparr>so_snd := reset_rto (e_now env) (push_packet (syn_packet env ns) (so_snd ns))\<rparr>"

lemma first_address_cong: "ipStack ts' = ipStack ts \<Longrightarrow> first_address env ts' = first_address env ts"
  by (simp add: first_address_def cong: option.case_cong)

text \<open>A connection attempt: one more socket, one more entry in SYN_SENT, one SYN.\<close>

lemma VConnect_start_run:
  fixes env :: "'rb tcp_env"
  assumes env: "env_ok env good content cap" and ok: "host_ok good ts"
  shows "\<exists>err ts1. let r = nextRef ts;
      ns = new_client env (nextSID ts) (first_address env ts) (nextPort ts) ra rp;
      syn = make_header (nextPort ts) rp (ns_SeqNum ns) 0 TCP_SYN BUFFER_SIZE in
    VConnect_start env ra rp ts = Ret (r, client_entry ns r, map_option Msg err, ts1) \<and> host_ok good ts1 \<and>
    table_entries ts1 = table_entries ts @ [client_entry ns r] \<and>
    normals ts1 = (normals ts)(r \<mapsto> with_syn env ns) \<and> ipStack ts1 = ipStack ts \<and>
    (\<exists>eff. outbox ts1 = outbox ts @ [(ra, serializeTCPPacket syn [], eff)] \<and> (err = None \<longleftrightarrow> (\<exists>x. eff = Inr x)))"
proof -
  let ?r = "nextRef ts"
  define tp where "tp = snd (allocatePort (ts\<lparr>nextSID := nextSID ts + 1\<rparr>))"
  let ?ns = "new_client env (nextSID ts) (first_address env ts) (nextPort ts) ra rp"
  let ?syn = "make_header (nextPort ts) rp (ns_SeqNum ?ns) 0 TCP_SYN BUFFER_SIZE"
  let ?ts1 = "tp\<lparr>nextRef := Suc ?r, normals := (normals ts)(?r \<mapsto> ?ns)\<rparr>"
  let ?e = "client_entry ?ns ?r"
  let ?ts2 = "VInsertTableEntry env ?e ?ts1"
  let ?ts3 = "put_socket ?r (with_syn env ?ns) ?ts2"
  note good = new_client_good [OF env, of "nextSID ts" "first_address env ts" "nextPort ts" ra rp]
  have p: "tp = ts\<lparr>nextPort := nextPort tp, nextSID := nextSID ts + 1\<rparr>"
    by (cases ts) (simp add: tp_def allocatePort_def Let_def)
  have "host_ok good (ts\<lparr>nextPort := nextPort tp\<rparr>)"
    using ok by (simp add: host_ok_def table_wf_def closers_ok_def socks_ok_def refs_ok_def)
  from new_socket_host_ok(1) [OF this good, of ?r "nextSID ts + 1"]
  have "host_ok good (ts\<lparr>nextPort := nextPort tp, nextSID := nextSID ts + 1, nextRef := Suc ?r, normals := (normals ts)(?r \<mapsto> ?ns)\<rparr>)"
    by simp
  then have ok1: "host_ok good ?ts1" by (subst p) simp
  have t0: "table_entries tp = table_entries ts" by (simp add: tp_def allocatePort_def Let_def)
  have t1: "table_entries ?ts1 = table_entries ts" "tbl ?ts1 = tbl ts" "normals ?ts1 = (normals ts)(?r \<mapsto> ?ns)"
    "ipStack ?ts1 = ipStack ts" "outbox ?ts1 = outbox ts" "nextSID ?ts1 = nextSID ts + 1"
    by (simp_all add: tp_def allocatePort_def Let_def)
  have ok2: "host_ok good ?ts2"
    by (rule VInsert_host_ok [OF ok1 env_okD(1) [OF env]])
       (use new_socket_host_ok(2) [OF ok good refl] in \<open>simp_all add: entry_ok_def client_entry_def t0\<close>)
  have t2: "table_entries ?ts2 = table_entries ts @ [?e]"
    using VInsertTableEntry_table(1) [OF host_okD(1) [OF ok1] env_okD(1) [OF env]] t1(1) by simp
  have ok3: "host_ok good ?ts3"
    by (rule put_host_ok [OF ok2]) (use good in \<open>simp_all add: VInsert_fields with_syn_def buffers_ok_def\<close>)
  obtain err eff where send: "sendPacket env ra (serializeTCPPacket ?syn []) ?ts3 =
      Ret (err, ?ts3\<lparr>outbox := outbox ?ts3 @ [(ra, serializeTCPPacket ?syn [], eff)]\<rparr>)"
    and err: "err = None \<longleftrightarrow> (\<exists>x. eff = Inr x)"
    using sendPacket_Ret [OF host_okD(4) [OF ok3] env_okD(2) [OF env]] by blast
  have out: "outbox ?ts3 = outbox ts"
    by (simp add: put_socket_def VInsertTableEntry_def append_entry_def Let_def tp_def allocatePort_def client_entry_def)
  let ?ts4 = "?ts3\<lparr>outbox := outbox ?ts3 @ [(ra, serializeTCPPacket ?syn [], eff)]\<rparr>"
  have alloc: "allocatePort (ts\<lparr>nextSID := nextSID ts + 1\<rparr>) = (nextPort ts, tp)" "nextRef tp = ?r"
    "normals tp = normals ts" "first_address env tp = first_address env ts"
    using first_address_cong [of tp ts env] by (simp_all add: tp_def allocatePort_def Let_def)
  have ns: "ns_LocalAddress ?ns = first_address env ts" "ns_LocalPort ?ns = nextPort ts" "ns_RemoteAddress ?ns = ra"
    "ns_RemotePort ?ns = rp" "rcv_WND (so_rcv ?ns) = BUFFER_SIZE"
    by (simp_all add: new_client_def Let_def)
  have "VConnect_start env ra rp ts = Ret (?r, ?e, map_option Msg err, ?ts4)"
    unfolding VConnect_start_def generateSID_def prod.case Let_def alloc(1) unfolding alloc(2-4) ns
    using send [unfolded with_syn_def client_entry_def syn_packet_def ns]
    by (simp add: client_entry_def ns with_syn_def syn_packet_def)
  moreover have "host_ok good ?ts4" by (rule quiet_host_ok [OF outbox_quiet ok3])
  moreover have "table_entries ?ts4 = table_entries ts @ [?e]" using t2 by simp
  moreover have "normals ?ts4 = (normals ts)(?r \<mapsto> with_syn env ?ns)" "ipStack ?ts4 = ipStack ts"
    by (simp_all add: put_socket_def VInsert_fields t1)
  ultimately show ?thesis using err out unfolding Let_def by (intro exI [of _ err] exI [of _ ?ts4]) auto
qed

lemma VDelete_host_ok:
  assumes ok: "host_ok good ts"
  shows "\<exists>ts'. VDeleteTableEntry e ts = Ret ts' \<and> host_ok good ts' \<and> rest_same ts ts' \<and>
    table_entries ts' = filter (\<lambda>x. x \<noteq> e) (table_entries ts)"
proof -
  note wf = host_okD(1,2) [OF ok]
  obtain sl where sl: "VDeleteTableEntry e ts = Ret (set_tbl sl ts)" "slice_ok sl"
    "live sl = filter (\<lambda>x. x \<noteq> e) (table_entries ts)"
    using VDelete_ex [OF wf(2), of e] by blast
  have "delete_loop e [0..<tlen ts] (tbl ts) = Ret sl"
    using sl(1) unfolding VDeleteTableEntry_def mapG_eq_Ret by (metis set_tbl_entries(2))
  then have "length (arr sl) = length (arr (tbl ts))" using delete_loop_length wf(1) by blast
  then have len: "length (arrays (set_tbl sl ts) g) = length (arrays ts g)" for g
    by (simp add: set_tbl_def tbl_def)
  have rest: "rest_same ts (set_tbl sl ts)" by (simp add: rest_same_def set_tbl_def)
  have "table_wf (set_tbl sl ts)" using wf sl by (simp add: table_wf_def distinct_map_filter)
  then have "host_ok good (set_tbl sl ts)"
    using ok rest len sl(3) by (auto simp: host_ok_def closers_ok_def socks_ok_def refs_ok_def rest_same_def)
  with sl rest show ?thesis by (intro exI [of _ "set_tbl sl ts"]) simp
qed

lemma VConnect_wait_Ret:
  assumes "host_ok good ts" "VConnect_wait env pick r e since ts = Ret (err, ts')"
  shows "host_ok good ts'"
  using assms VDelete_host_ok [OF assms(1), of e]
  by (auto simp: VConnect_wait_def bindG_eq_Ret mapG_eq_Ret Let_def split: if_splits)

section \<open>Listening and reading\<close>

lemma VListen_host_ok:
  assumes env: "env_ok env good content cap" and ok: "host_ok good ts"
  shows "host_ok good (snd (VListen env port ts))"
proof -
  let ?r = "nextRef ts"
  let ?l = "\<lparr>ls_SID = nextSID ts, ls_localPort = port, acceptQueue = []\<rparr>"
  let ?ts = "ts\<lparr>nextSID := nextSID ts + 1, nextRef := Suc ?r, listeners := (listeners ts)(?r \<mapsto> ?l)\<rparr>"
  have new: "ListenRef ?r \<notin> SocketStruct ` set (table_entries ts)"
  proof
    assume "ListenRef ?r \<in> SocketStruct ` set (table_entries ts)"
    then obtain x where "x \<in> set (table_entries ts)" "SocketStruct x = ListenRef ?r" by (auto dest: sym)
    then have "?r \<in> dom (listeners ts)" using ok by (fastforce simp: host_ok_def entry_ok_def)
    then show False using ok by (auto simp: host_ok_def refs_ok_def)
  qed
  have "entry_ok (dom (normals ?ts)) (dom (listeners ?ts)) x" if "x \<in> set (table_entries ts)" for x
  proof (rule entry_ok_mono [of "dom (normals ts)" "dom (listeners ts)"])
    show "entry_ok (dom (normals ts)) (dom (listeners ts)) x" using ok that unfolding host_ok_def by blast
  qed auto
  moreover have "table_wf ?ts" "closers_ok ?ts" "socks_ok good ?ts" "stack_ok (ipStack ?ts)"
    using ok by (simp_all add: host_ok_def table_wf_def closers_ok_def socks_ok_def)
  moreover have "refs_ok ?ts" using ok by (auto simp: host_ok_def refs_ok_def less_Suc_eq)
  ultimately have ok1: "host_ok good ?ts" by (simp add: host_ok_def)
  show ?thesis
    using VInsert_host_ok [OF ok1 env_okD(1) [OF env], of "\<lparr>LocalAddress = IPv4 0, LocalPort = port,
        RemoteAddress = IPv4 0, RemotePort = 0, State = TCP_LISTEN, SocketStruct = ListenRef ?r\<rparr>"] new
    by (simp add: VListen_def generateSID_def Let_def entry_ok_def)
qed

lemma VAccept_Ret:
  assumes "host_ok good ts" "VAccept lr ts = Ret (r, ts')"
  shows "host_ok good ts'"
proof -
  have "quiet good ts ts'"
    using assms(2) by (auto simp: VAccept_def quiet_def socks_ok_def split: option.splits list.splits if_splits)
  then show ?thesis using assms(1) by (rule quiet_host_ok)
qed

lemma read_laws:
  assumes "env_ok env good content cap" "good b" "0 < n"
  shows "if content b = [] then rb_Read (e_rb env) b n = Block
    else \<exists>b'. rb_Read (e_rb env) b n = Ret (take n (content b), None, b') \<and> good b' \<and>
      content b' = drop n (content b) \<and> cap b' = cap b"
  using env_okD(3) [OF assms(1)] assms(2,3) unfolding rb_laws_def by blast

lemma read_none: "env_ok env good content cap \<Longrightarrow> good b \<Longrightarrow> rb_Read (e_rb env) b 0 = Ret ([], None, b)"
  using env_okD(3) [of env good content cap] unfolding rb_laws_def by blast

lemma VRead_Ret:
  assumes env: "env_ok env good content cap" and ok: "host_ok good ts" and run: "VRead env r n ts = Ret (d, err, ts')"
  shows "quiet good ts ts'"
proof -
  obtain s p where s: "normals ts r = Some s" "find_own ts s = Some p"
    using run by (auto simp: VRead_def socket_of_def split: option.splits)
  have b: "buffers_ok good s" by (rule sock_good [OF ok s(1)])
  then have "good (rcv_buf (so_rcv s))" by (simp add: buffers_ok_def)
  then have law: "if n = 0 then rb_Read (e_rb env) (rcv_buf (so_rcv s)) n = Ret ([], None, rcv_buf (so_rcv s))
    else if content (rcv_buf (so_rcv s)) = [] then rb_Read (e_rb env) (rcv_buf (so_rcv s)) n = Block
    else \<exists>b'. rb_Read (e_rb env) (rcv_buf (so_rcv s)) n = Ret (take n (content (rcv_buf (so_rcv s))), None, b') \<and> good b'"
    using read_laws [OF env, of "rcv_buf (so_rcv s)" n] read_none [OF env, of "rcv_buf (so_rcv s)"] by auto
  have "quiet good ts (put_socket r (s\<lparr>so_rcv := x\<rparr>) ts)" if "good (rcv_buf x)" for x
    by (rule put_socket_quiet) (use s(1) buffers_ok_so_rcv [OF b that] in auto)
  then show ?thesis
    using run s law \<open>good (rcv_buf (so_rcv s))\<close>
    by (auto simp: VRead_def socket_of_def bindG_eq_Ret Let_def split: if_splits)
qed

lemma sendRST_Ret:
  assumes "env_ok env good content cap" "host_ok good ts" "sendRST env r ts = Ret (err, ts')"
  shows "quiet good ts ts'"
proof -
  obtain dst x e where "sendPacket env dst x ts = Ret (e, ts')"
    using assms(3) unfolding sendRST_def bindG_eq_Ret mapG_eq_Ret by auto
  then show ?thesis
    using sendPacket_Ret [OF host_okD(4) [OF assms(2)] env_okD(2) [OF assms(1)], of dst x] by auto
qed

lemma sendDataPacket_Ret:
  assumes "env_ok env good content cap" "host_ok good ts" "sendDataPacket env r d ts = Ret (err, ts')"
  shows "quiet good ts ts'"
proof -
  obtain s where s: "normals ts r = Some s" using assms(3) by (auto simp: sendDataPacket_def socket_of_def split: option.splits)
  have b: "buffers_ok good s" by (rule sock_good [OF assms(2) s])
  obtain e eff where send: "sendPacket env (ns_RemoteAddress s) (serializeTCPPacket (data_header env s) d) ts =
      Ret (e, ts\<lparr>outbox := outbox ts @ [(ns_RemoteAddress s, serializeTCPPacket (data_header env s) d, eff)]\<rparr>)"
    using sendPacket_Ret [OF host_okD(4) [OF assms(2)] env_okD(2) [OF assms(1)]] by blast
  have "quiet good ts (put_socket r (s\<lparr>so_snd := u\<rparr>) (ts\<lparr>outbox := x\<rparr>))" if "snd_buf u = snd_buf (so_snd s)" for u x
    by (rule quiet_trans [OF outbox_quiet put_socket_quiet]) (use s buffers_ok_so_snd [OF b that] in auto)
  then show ?thesis using assms(3) s send by (auto simp: sendDataPacket_def socket_of_def split: if_splits)
qed

end
