(* ===== verification/TCP_Writer.thy ===== *)
theory TCP_Writer
  imports TCP_Socket
begin

text \<open>
  The sending loop (\<open>VWrite\<close>, \<open>trySendData\<close> and \<open>sendZeroWindowProbe\<close> of
  \<open>pkg/tcpstack/normal_socket.go\<close>) and the two file transfers, as goroutines: a control point and a
  step function, one step per iteration, between which acknowledgements and other goroutines run.
  \<^item> \<open>Writing d\<close>: the head of \<open>VWrite\<close>'s loop with \<open>d\<close> still to be written; \<open>Sending d\<close>: the head of
    \<open>trySendData\<close>'s loop; \<open>Probing d b k\<close>: the head of the probing loop with the byte \<open>b\<close> after \<open>k\<close>
    probes; \<open>Returned e\<close>: the call has returned.
  \<^item> The \<open>continue\<close> of a closed window is a step to the same point: the loop spins.
\<close>

section \<open>Writing\<close>

datatype writer = Writing "byte list" | Sending "byte list" | Probing "byte list" "byte list" nat
  | Returned "sock_error option"

definition VWrite_start :: "nat \<Rightarrow> byte list \<Rightarrow> 'rb TCPStack \<Rightarrow> writer go" where
  "VWrite_start r data ts =
     mapG (\<lambda>socket.
       case find_own ts socket of
         None \<Rightarrow> Returned (Some (Msg ''entry not found''))
       | Some p \<Rightarrow>
           if State (deref ts p) \<noteq> TCP_ESTABLISHED \<and> State (deref ts p) \<noteq> TCP_CLOSE_WAIT
           then Returned (Some (Msg ''connection not established''))
           else Writing data)
       (socket_of ts r)"

text \<open>The head of \<open>VWrite\<close>'s loop: fill the send buffer.\<close>

definition fill_buffer :: "'rb tcp_env \<Rightarrow> nat \<Rightarrow> byte list \<Rightarrow> 'rb TCPStack \<Rightarrow> (writer \<times> 'rb TCPStack) go" where
  "fill_buffer env r data ts =
     (if data = [] then Ret (Returned None, ts)
      else bindG (socket_of ts r) (\<lambda>socket.
        case rb_TryWrite (e_rb env) (snd_buf (so_snd socket)) data of
          (n, err, buf) \<Rightarrow>
            (let ts = put_socket r (socket\<lparr>so_snd := (so_snd socket)\<lparr>snd_buf := buf\<rparr>\<rparr>) ts
             in case err of
                  None \<Rightarrow> Ret (Sending (drop n data), ts)
                | Some e \<Rightarrow>
                    if e \<noteq> ErrIsFull \<and> e \<noteq> ErrTooMuchDataToWrite then Ret (Returned (Some (RbErr e)), ts)
                    else Ret (Sending (drop n data), ts))))"

definition freeWindowSpace :: "'rb SND \<Rightarrow> u16" where
  "freeWindowSpace s = snd_WND s - ucast (snd_NXT s - UNA s)"

text \<open>One segment of at most \<open>maxSendSize\<close> bytes from the send buffer.\<close>

definition send_segment ::
  "'rb tcp_env \<Rightarrow> nat \<Rightarrow> 'rb NormalSocket \<Rightarrow> byte list \<Rightarrow> 'rb TCPStack \<Rightarrow> (writer \<times> 'rb TCPStack) go" where
  "send_segment env r socket rest ts =
     (let maxSendSize = min (unat (freeWindowSpace (so_snd socket))) MAX_TCP_PAYLOAD
      in bindG (rb_Read (e_rb env) (snd_buf (so_snd socket)) maxSendSize) (\<lambda>(data, err, buf).
           let socket = socket\<lparr>so_snd := (so_snd socket)\<lparr>snd_buf := buf\<rparr>\<rparr>;
               ts = put_socket r socket ts
           in case err of
                Some e \<Rightarrow> Ret (Returned (Some (RbErr e)), ts)
              | None \<Rightarrow>
                  bindG (sendPacket env (ns_RemoteAddress socket)
                           (serializeTCPPacket (data_header env socket) data) ts) (\<lambda>(err, ts).
                    if err \<noteq> None then Ret (Returned (map_option Msg err), ts)
                    else
                      (let s = so_snd socket;
                           s = (if inFlightPackets s = [] then reset_rto (e_now env) s else s);
                           s = push_packet (data_packet env socket data) s;
                           s = s\<lparr>snd_NXT := snd_NXT s + word_of_nat (length data)\<rparr>
                       in Ret (Sending rest, put_socket r (socket\<lparr>so_snd := s\<rparr>) ts)))))"

definition start_probe ::
  "'rb tcp_env \<Rightarrow> nat \<Rightarrow> 'rb NormalSocket \<Rightarrow> byte list \<Rightarrow> 'rb TCPStack \<Rightarrow> (writer \<times> 'rb TCPStack) go" where
  "start_probe env r socket rest ts =
     (case rb_TryRead (e_rb env) (snd_buf (so_snd socket)) 1 of
        (data, err, buf) \<Rightarrow>
          Ret (Probing rest (take 1 (data @ [0])) 0,
               put_socket r (socket\<lparr>so_snd := (so_snd socket)\<lparr>snd_buf := buf\<rparr>\<rparr>) ts))"

text \<open>The head of \<open>trySendData\<close>'s loop.\<close>

definition try_send :: "'rb tcp_env \<Rightarrow> nat \<Rightarrow> byte list \<Rightarrow> 'rb TCPStack \<Rightarrow> (writer \<times> 'rb TCPStack) go" where
  "try_send env r rest ts =
     bindG (socket_of ts r) (\<lambda>socket.
       if rb_Length (e_rb env) (snd_buf (so_snd socket)) = 0 then Ret (Writing rest, ts)
       else if 0 < snd_WND (so_snd socket)
       then (if freeWindowSpace (so_snd socket) \<le> 0 then Ret (Sending rest, ts)
             else send_segment env r socket rest ts)
       else start_probe env r socket rest ts)"

text \<open>One turn of the probing loop, or its end. The probed byte is not put among the packets in flight.\<close>

definition probe ::
  "'rb tcp_env \<Rightarrow> nat \<Rightarrow> byte list \<Rightarrow> byte list \<Rightarrow> nat \<Rightarrow> 'rb TCPStack \<Rightarrow> (writer \<times> 'rb TCPStack) go" where
  "probe env r rest b retries ts =
     bindG (socket_of ts r) (\<lambda>socket.
       if snd_WND (so_snd socket) = 0 \<and> retries < ZWP_RETRIES
       then bindG (sendPacket env (ns_RemoteAddress socket) (serializeTCPPacket (data_header env socket) b) ts)
              (\<lambda>(err, ts).
                if err \<noteq> None then Ret (Returned (map_option Msg err), ts)
                else Ret (Probing rest b (retries + 1), ts))
       else if ZWP_RETRIES \<le> retries
       then Ret (Returned (Some (Msg ''zero window probe max retries exceeded'')), ts)
       else Ret (Sending rest, put_socket r (socket\<lparr>so_snd := (so_snd socket)
                    \<lparr>snd_NXT := snd_NXT (so_snd socket) + 1\<rparr>\<rparr>) ts))"

fun writer_step :: "'rb tcp_env \<Rightarrow> nat \<Rightarrow> writer \<Rightarrow> 'rb TCPStack \<Rightarrow> (writer \<times> 'rb TCPStack) go" where
  "writer_step env r (Writing data) ts = fill_buffer env r data ts"
| "writer_step env r (Sending rest) ts = try_send env r rest ts"
| "writer_step env r (Probing rest b k) ts = probe env r rest b k ts"
| "writer_step env r (Returned e) ts = Ret (Returned e, ts)"

text \<open>Steps without interruption.\<close>

fun writer_run :: "nat \<Rightarrow> 'rb tcp_env \<Rightarrow> nat \<Rightarrow> writer \<Rightarrow> 'rb TCPStack \<Rightarrow> (writer \<times> 'rb TCPStack) go" where
  "writer_run 0 env r w ts = Ret (w, ts)"
| "writer_run (Suc n) env r w ts = bindG (writer_step env r w ts) (\<lambda>(w, ts). writer_run n env r w ts)"

section \<open>Sending a file\<close>

definition close_error :: "sock_error \<Rightarrow> sock_error" where
  "close_error e = (case e of
     Msg m \<Rightarrow> Msg (''error closing connection after file transfer: '' @ m) | RbErr x \<Rightarrow> RbErr x)"

text \<open>
  \<open>VSendFile\<close>: the file as the chunks that the calls of \<open>file.Read\<close> return, each at most
  \<open>BUFFER_SIZE\<close> bytes, and the error of the last one, if it is not \<open>io.EOF\<close>.
\<close>

datatype file_sender = Reading "byte list list" "string option"
  | InWrite writer "byte list list" "string option" | Draining | SendDone "sock_error option"

definition VSendFile_start :: "string + (byte list list \<times> string option) \<Rightarrow> file_sender" where
  "VSendFile_start opened = (case opened of Inl err \<Rightarrow> SendDone (Some (Msg err)) | Inr (cs, e) \<Rightarrow> Reading cs e)"

fun VSendFile_step :: "'rb tcp_env \<Rightarrow> nat \<Rightarrow> file_sender \<Rightarrow> 'rb TCPStack \<Rightarrow> (file_sender \<times> 'rb TCPStack) go" where
  "VSendFile_step env r (Reading [] None) ts = Ret (Draining, ts)"
| "VSendFile_step env r (Reading [] (Some err)) ts = Ret (SendDone (Some (Msg err)), ts)"
| "VSendFile_step env r (Reading (c # cs) e) ts =
     (if 0 < length c then mapG (\<lambda>w. (InWrite w cs e, ts)) (VWrite_start r c ts)
      else Ret (Reading cs e, ts))"
| "VSendFile_step env r (InWrite (Returned None) cs e) ts = Ret (Reading cs e, ts)"
| "VSendFile_step env r (InWrite (Returned (Some err)) cs e) ts = Ret (SendDone (Some err), ts)"
| "VSendFile_step env r (InWrite w cs e) ts = mapG (\<lambda>(w, ts). (InWrite w cs e, ts)) (writer_step env r w ts)"
| "VSendFile_step env r Draining ts =
     bindG (socket_of ts r) (\<lambda>socket.
       if inFlightPackets (so_snd socket) = []
       then mapG (\<lambda>(err, ts). (SendDone (map_option close_error err), ts)) (VClose env r ts)
       else Ret (Draining, ts))"
| "VSendFile_step env r (SendDone e) ts = Ret (SendDone e, ts)"

section \<open>Receiving a file\<close>

text \<open>
  \<open>VReceiveFile\<close>: the bytes written to the file so far. \<open>write_err\<close> is the error of
  \<open>file.Write\<close>, if any.
\<close>

datatype file_receiver = Receiving "byte list" | Closing "byte list" | RecvDone "byte list" "sock_error option"

definition VReceiveFile_start :: "string option \<Rightarrow> file_receiver" where
  "VReceiveFile_start create_err = (case create_err of
     Some err \<Rightarrow> RecvDone [] (Some (Msg err)) | None \<Rightarrow> Receiving [])"

fun VReceiveFile_step ::
  "'rb tcp_env \<Rightarrow> (byte list \<Rightarrow> string option) \<Rightarrow> nat \<Rightarrow> file_receiver \<Rightarrow> 'rb TCPStack \<Rightarrow>
   (file_receiver \<times> 'rb TCPStack) go" where
  "VReceiveFile_step env write_err r (Receiving written) ts =
     bindG (socket_of ts r) (\<lambda>socket.
       case find_own ts socket of
         None \<Rightarrow> Ret (RecvDone written (Some (Msg ''entry not found'')), ts)
       | Some p \<Rightarrow>
           if State (deref ts p) = TCP_CLOSE_WAIT then Ret (Closing written, ts)
           else if rb_Length (e_rb env) (rcv_buf (so_rcv socket)) = 0 then Ret (Receiving written, ts)
           else bindG (VRead env r (unat BUFFER_SIZE) ts) (\<lambda>(data, err, ts).
             case err of
               Some e \<Rightarrow>
                 if e \<noteq> Msg ''connection not established'' then Ret (RecvDone written (Some e), ts)
                 else Ret (Closing written, ts)
             | None \<Rightarrow>
                 if 0 < length data
                 then (case write_err data of
                         Some e \<Rightarrow> Ret (RecvDone written (Some (Msg e)), ts)
                       | None \<Rightarrow> if State (deref ts p) = TCP_CLOSE_WAIT then Ret (Closing (written @ data), ts)
                                 else Ret (Receiving (written @ data), ts))
                 else if State (deref ts p) = TCP_CLOSE_WAIT then Ret (Closing written, ts)
                 else Ret (Receiving written, ts)))"
| "VReceiveFile_step env write_err r (Closing written) ts =
     mapG (\<lambda>(err, ts). (RecvDone written (map_option close_error err), ts)) (VClose env r ts)"
| "VReceiveFile_step env write_err r (RecvDone written e) ts = Ret (RecvDone written e, ts)"

end
