(* ===== verification/TCP_Writer_Props.thy ===== *)
theory TCP_Writer_Props
  imports TCP_Writer TCP_Socket_Safety TCP_Reassembly TCP_Retransmission_Props
begin

text \<open>
  The sending loop: what it sends is the byte stream it was given, cut into segments; how much it
  sends against the peer's window; and that it ends.
\<close>

section \<open>The buffer\<close>

lemma rb_lawsD:
  assumes "rb_laws ops good content cap"
  shows "\<forall>b. good b \<longrightarrow> length (content b) \<le> cap b \<and> rb_Length ops b = length (content b) \<and>
        rb_Free ops b = cap b - length (content b)"
    "\<forall>b bs. good b \<longrightarrow> (\<exists>n err b'. rb_TryWrite ops b bs = (n, err, b') \<and> good b' \<and>
        n = min (length bs) (cap b - length (content b)) \<and> content b' = content b @ take n bs \<and> cap b' = cap b \<and>
        err = (if n = length bs then None else if n = 0 then Some ErrIsFull else Some ErrTooMuchDataToWrite))"
    "\<forall>b n. good b \<longrightarrow> 0 < n \<longrightarrow> (\<exists>b'. rb_TryRead ops b n = (take n (content b),
        if content b = [] then Some ErrIsEmpty else None, b') \<and> good b' \<and>
        content b' = drop n (content b) \<and> cap b' = cap b)"
  using assms unfolding rb_laws_def by - (elim conjE, assumption)+

lemma buffer_laws:
  assumes "env_ok env good content cap" "good b"
  shows "rb_Length (e_rb env) b = length (content b)" "length (content b) \<le> cap b"
  using rb_lawsD(1) [OF env_okD(3) [OF assms(1)]] assms(2) by simp_all

lemma TryWrite_law:
  assumes "env_ok env good content cap" "good b"
  shows "\<exists>n err b'. rb_TryWrite (e_rb env) b bs = (n, err, b') \<and> good b' \<and>
    n = min (length bs) (cap b - length (content b)) \<and> content b' = content b @ take n bs \<and> cap b' = cap b \<and>
    err \<in> {None, Some ErrIsFull, Some ErrTooMuchDataToWrite}"
  using rb_lawsD(2) [OF env_okD(3) [OF assms(1)], THEN spec, THEN spec, THEN mp, OF assms(2), of bs]
  by (elim exE conjE, intro exI conjI) (assumption | simp)+

lemma TryRead_law:
  assumes "env_ok env good content cap" "good b"
  shows "\<exists>err b'. rb_TryRead (e_rb env) b 1 = (take 1 (content b), err, b') \<and> good b' \<and>
    content b' = drop 1 (content b) \<and> cap b' = cap b"
  using rb_lawsD(3) [OF env_okD(3) [OF assms(1)], THEN spec, THEN spec, THEN mp, OF assms(2), of 1] by auto

lemma Read_law:
  assumes "env_ok env good content cap" "good b" "0 < n" "content b \<noteq> []"
  shows "\<exists>b'. rb_Read (e_rb env) b n = Ret (take n (content b), None, b') \<and> good b' \<and>
    content b' = drop n (content b) \<and> cap b' = cap b"
  using read_laws [OF assms(1-3)] assms(4) by simp

section \<open>The stream\<close>

text \<open>
  The bytes \<open>W\<close> from sequence number \<open>base\<close> on: \<open>k\<close> of them have been sent, the next are in the
  buffer and the last in the argument of the call.
\<close>

fun writer_ok :: "byte list \<Rightarrow> nat \<Rightarrow> byte list \<Rightarrow> writer \<Rightarrow> bool" where
  "writer_ok W k c (Writing d) \<longleftrightarrow> k \<le> length W \<and> c @ d = drop k W"
| "writer_ok W k c (Sending d) \<longleftrightarrow> k \<le> length W \<and> c @ d = drop k W"
| "writer_ok W k c (Probing d b n) \<longleftrightarrow> k < length W \<and> b = [W ! k] \<and> c @ d = drop (k + 1) W"
| "writer_ok W k c (Returned None) \<longleftrightarrow> k \<le> length W \<and> c = drop k W"
| "writer_ok W k c (Returned (Some e)) \<longleftrightarrow> True"

text \<open>What is in flight, and may be sent again, is a part of the stream.\<close>

definition in_flight_ok :: "u32 \<Rightarrow> byte list \<Rightarrow> InFlightPacket list \<Rightarrow> bool" where
  "in_flight_ok base W ps \<longleftrightarrow> (\<forall>p \<in> set ps. segment_of base W (if_SeqNum p) (if_data p) \<and> if_data p \<noteq> [] \<and>
     length (if_data p) \<le> MAX_TCP_PAYLOAD)"

lemma in_flight_ok_simps [simp]: "in_flight_ok base W []"
  "in_flight_ok base W (ps @ qs) \<longleftrightarrow> in_flight_ok base W ps \<and> in_flight_ok base W qs"
  by (auto simp: in_flight_ok_def)

lemma in_flight_ok_filter [simp]: "in_flight_ok base W ps \<Longrightarrow> in_flight_ok base W (filter P ps)"
  by (simp add: in_flight_ok_def)

definition writer_inv :: "('rb \<Rightarrow> byte list) \<Rightarrow> u32 \<Rightarrow> byte list \<Rightarrow> writer \<Rightarrow> 'rb SND \<Rightarrow> bool" where
  "writer_inv content base W w s \<longleftrightarrow> in_flight_ok base W (inFlightPackets s) \<and> (\<exists>k. snd_NXT s = base + word_of_nat k \<and> writer_ok W k (content (snd_buf s)) w)"

lemma take_segment:
  assumes "k \<le> length W" "c @ d = drop k W"
  shows "segment_of base W (base + word_of_nat k) (take n c)" "drop n c @ d = drop (k + length (take n c)) W"
    "k + length (take n c) \<le> length W"
proof -
  have len: "length c + length d = length W - k" using arg_cong [OF assms(2), of length] by simp
  have "take n c = take (length (take n c)) (drop k W)"
    unfolding assms(2) [symmetric] by (simp add: min_def)
  then show "segment_of base W (base + word_of_nat k) (take n c)"
    using assms(1) len unfolding segment_of_def by (intro exI [of _ k]) simp
  have "drop (k + length (take n c)) W = drop (length (take n c)) (c @ d)"
    by (simp only: assms(2) drop_drop add.commute)
  then show "drop n c @ d = drop (k + length (take n c)) W" by (cases "n \<le> length c") simp_all
  show "k + length (take n c) \<le> length W" using assms(1) len by simp
qed

text \<open>One segment \<open>d\<close> has been handed to IP, or nothing.\<close>

definition sent :: "byte list list \<Rightarrow> (TCPHeader \<Rightarrow> byte list \<Rightarrow> bool) \<Rightarrow> 'rb TCPStack \<Rightarrow> 'rb TCPStack \<Rightarrow> bool" where
  "sent ds P ts ts' \<longleftrightarrow> (case ds of
     [] \<Rightarrow> outbox ts' = outbox ts
   | [d] \<Rightarrow> \<exists>dst h eff. outbox ts' = outbox ts @ [(dst, serializeTCPPacket h d, eff)] \<and> P h d
   | _ \<Rightarrow> False)"

lemma sentI: "outbox ts' = outbox ts @ [(dst, serializeTCPPacket h d, eff)] \<Longrightarrow> P h d \<Longrightarrow> sent [d] P ts ts'"
  by (auto simp: sent_def)

lemma sent_mono: "sent [d] P ts ts' \<Longrightarrow> (\<And>h. P h d \<Longrightarrow> Q h d) \<Longrightarrow> sent [d] Q ts ts'"
  unfolding sent_def by simp blast

lemma writer_inv_failed: "writer_inv content base W w s \<Longrightarrow> writer_inv content base W (Returned (Some e)) s"
  by (auto simp: writer_inv_def)

lemma put_send_facts:
  assumes "host_ok good ts" "normals ts r = Some s" "snd_buf x = b" "good b"
  shows "quiet good ts (put_socket r (s\<lparr>so_snd := x\<rparr>) ts)"
    "quiet good ts ((put_socket r (s\<lparr>so_snd := x\<rparr>) ts)\<lparr>outbox := out\<rparr>)"
proof -
  show q: "quiet good ts (put_socket r (s\<lparr>so_snd := x\<rparr>) ts)"
    by (rule put_socket_quiet) (use assms sock_good [OF assms(1,2)] in \<open>auto simp: buffers_ok_def\<close>)
  show "quiet good ts ((put_socket r (s\<lparr>so_snd := x\<rparr>) ts)\<lparr>outbox := out\<rparr>)"
    by (rule quiet_trans [OF q outbox_quiet])
qed

lemma fill_buffer_step:
  assumes env: "env_ok env good content cap" and ok: "host_ok good ts" and s: "normals ts r = Some s" and d: "d \<noteq> []"
  shows "\<exists>ts' b. fill_buffer env r d ts =
      Ret (Sending (drop (min (length d) (cap (snd_buf (so_snd s)) - length (content (snd_buf (so_snd s))))) d), ts') \<and>
    ts' = put_socket r (s\<lparr>so_snd := (so_snd s)\<lparr>snd_buf := b\<rparr>\<rparr>) ts \<and> quiet good ts ts' \<and> good b \<and> cap b = cap (snd_buf (so_snd s)) \<and>
    content b = content (snd_buf (so_snd s)) @
      take (min (length d) (cap (snd_buf (so_snd s)) - length (content (snd_buf (so_snd s))))) d"
proof -
  have g: "good (snd_buf (so_snd s))" using sock_good [OF ok s] by (simp add: buffers_ok_def)
  obtain n err b where w: "rb_TryWrite (e_rb env) (snd_buf (so_snd s)) d = (n, err, b)" "good b"
    "n = min (length d) (cap (snd_buf (so_snd s)) - length (content (snd_buf (so_snd s))))"
    "content b = content (snd_buf (so_snd s)) @ take n d" "cap b = cap (snd_buf (so_snd s))"
    "err \<in> {None, Some ErrIsFull, Some ErrTooMuchDataToWrite}"
    using TryWrite_law [OF env g] by blast
  have "fill_buffer env r d ts = Ret (Sending (drop n d), put_socket r (s\<lparr>so_snd := (so_snd s)\<lparr>snd_buf := b\<rparr>\<rparr>) ts)"
    using w(1,6) d s by (auto simp: fill_buffer_def socket_of_def Let_def)
  then show ?thesis using w put_send_facts(1) [OF ok s, of "(so_snd s)\<lparr>snd_buf := b\<rparr>" b]
    by (intro exI [of _ "put_socket r (s\<lparr>so_snd := (so_snd s)\<lparr>snd_buf := b\<rparr>\<rparr>) ts"] exI [of _ b]) simp
qed

lemma drop_length_take: "drop (length (take n xs)) xs = drop n xs"
  by (simp add: min_def)

text \<open>The segment that \<open>send_segment\<close> cuts off.\<close>

definition next_cut :: "('rb \<Rightarrow> byte list) \<Rightarrow> 'rb SND \<Rightarrow> byte list" where
  "next_cut content s = take (min (unat (freeWindowSpace s)) MAX_TCP_PAYLOAD) (content (snd_buf s))"

definition segment_sent ::
  "('rb \<Rightarrow> bool) \<Rightarrow> ('rb \<Rightarrow> byte list) \<Rightarrow> ('rb \<Rightarrow> nat) \<Rightarrow> 'rb tcp_env \<Rightarrow> nat \<Rightarrow> 'rb NormalSocket \<Rightarrow> byte list \<Rightarrow>
   'rb TCPStack \<Rightarrow> writer \<Rightarrow> 'rb TCPStack \<Rightarrow> 'rb SND \<Rightarrow> bool" where
  "segment_sent good content cap env r s d ts w' ts' s' \<longleftrightarrow>
     (let c = next_cut content (so_snd s) in
      normals ts' r = Some (s\<lparr>so_snd := s'\<rparr>) \<and> quiet good ts ts' \<and> ipStack ts' = ipStack ts \<and>
      content (snd_buf s') = drop (length c) (content (snd_buf (so_snd s))) \<and>
      cap (snd_buf s') = cap (snd_buf (so_snd s)) \<and> UNA s' = UNA (so_snd s) \<and> snd_WND s' = snd_WND (so_snd s) \<and>
      sent [c] (\<lambda>h d. SeqNum h = snd_NXT (so_snd s) \<and> DataOffset h = 5) ts ts' \<and>
      (w' = Sending d \<and> snd_NXT s' = snd_NXT (so_snd s) + word_of_nat (length c) \<and>
         inFlightPackets s' = inFlightPackets (so_snd s) @ [data_packet env s c] \<or>
       \<not> routed env ts (ns_RemoteAddress s) \<and> (\<exists>e. w' = Returned (Some e)) \<and>
         snd_NXT s' = snd_NXT (so_snd s) \<and> inFlightPackets s' = inFlightPackets (so_snd s)))"

lemma send_segment_step:
  assumes env: "env_ok env good content cap" and ok: "host_ok good ts" and s: "normals ts r = Some s"
    and c: "content (snd_buf (so_snd s)) \<noteq> []" and free: "freeWindowSpace (so_snd s) \<noteq> 0"
  shows "\<exists>w' ts' s'. send_segment env r s d ts = Ret (w', ts') \<and> segment_sent good content cap env r s d ts w' ts' s'"
proof -
  let ?n = "min (unat (freeWindowSpace (so_snd s))) MAX_TCP_PAYLOAD" and ?b = "snd_buf (so_snd s)"
  have g: "good ?b" using sock_good [OF ok s] by (simp add: buffers_ok_def)
  have n: "0 < ?n" using free by (simp add: MAX_TCP_PAYLOAD_def unat_gt_0)
  obtain b where b: "rb_Read (e_rb env) ?b ?n = Ret (next_cut content (so_snd s), None, b)" "good b"
    "content b = drop ?n (content ?b)" "cap b = cap ?b"
    using Read_law [OF env g n c] by (auto simp: next_cut_def)
  have len: "drop ?n (content ?b) = drop (length (next_cut content (so_snd s))) (content ?b)"
    by (simp only: next_cut_def drop_length_take)
  let ?s = "s\<lparr>so_snd := (so_snd s)\<lparr>snd_buf := b\<rparr>\<rparr>" and ?d = "next_cut content (so_snd s)"
  have hd: "data_header env ?s = data_header env s" "data_packet env ?s ?d = data_packet env s ?d"
    "SeqNum (data_header env s) = snd_NXT (so_snd s) \<and> DataOffset (data_header env s) = 5"
    by (simp_all add: data_header_def data_packet_def make_header_def)
  let ?ts1 = "put_socket r ?s ts"
  have ip: "ipStack ?ts1 = ipStack ts" "outbox ?ts1 = outbox ts" by (simp_all add: put_socket_def)
  obtain err eff where send: "sendPacket env (ns_RemoteAddress s) (serializeTCPPacket (data_header env s) ?d) ?ts1 =
      Ret (err, ?ts1\<lparr>outbox := outbox ts @ [(ns_RemoteAddress s, serializeTCPPacket (data_header env s) ?d, eff)]\<rparr>)"
    using sendPacket_Ret [of ?ts1 env "ns_RemoteAddress s"] host_okD(4) [OF ok] env_okD(2) [OF env] ip by metis
  let ?ts2 = "?ts1\<lparr>outbox := outbox ts @ [(ns_RemoteAddress s, serializeTCPPacket (data_header env s) ?d, eff)]\<rparr>"
  have q2: "quiet good ts ?ts2"
    using put_send_facts(2) [OF ok s _ b(2), of "(so_snd s)\<lparr>snd_buf := b\<rparr>"] by simp
  show ?thesis
  proof (cases err)
    case None
    define u where "u = (push_packet (data_packet env s ?d) (if inFlightPackets (so_snd s) = []
        then reset_rto (e_now env) ((so_snd s)\<lparr>snd_buf := b\<rparr>) else (so_snd s)\<lparr>snd_buf := b\<rparr>))
      \<lparr>snd_NXT := snd_NXT (so_snd s) + word_of_nat (length ?d)\<rparr>"
    have u: "snd_buf u = b" "UNA u = UNA (so_snd s)" "snd_WND u = snd_WND (so_snd s)"
      "snd_NXT u = snd_NXT (so_snd s) + word_of_nat (length ?d)"
      "inFlightPackets u = inFlightPackets (so_snd s) @ [data_packet env s ?d]"
      by (simp_all add: u_def push_packet_def reset_rto_def)
    let ?ts3 = "put_socket r (s\<lparr>so_snd := u\<rparr>) ?ts2"
    have "send_segment env r s d ts = Ret (Sending d, ?ts3)"
      using b(1) send None hd by (simp add: send_segment_def Let_def push_packet_def reset_rto_def u_def)
    moreover have "quiet good ts ?ts3"
      by (rule quiet_trans [OF q2 put_socket_quiet])
         (use s b(2) sock_good [OF ok s] in \<open>auto simp: put_socket_def buffers_ok_def u\<close>)
    moreover have "sent [?d] (\<lambda>h d. SeqNum h = snd_NXT (so_snd s) \<and> DataOffset h = 5) ts ?ts3"
      by (rule sentI [where h = "data_header env s" and eff = eff and dst = "ns_RemoteAddress s"])
         (simp add: put_socket_def, rule hd(3))
    moreover have "normals ?ts3 r = Some (s\<lparr>so_snd := u\<rparr>)" by (simp add: put_socket_def)
    ultimately show ?thesis using u b(3,4) len by (intro exI [of _ "Sending d"] exI [of _ ?ts3] exI [of _ u])
        (simp add: segment_sent_def Let_def quiet_def)
  next
    case (Some e)
    have "send_segment env r s d ts = Ret (Returned (Some (Msg e)), ?ts2)"
      using b(1) send Some hd by (simp add: send_segment_def Let_def)
    moreover have "\<not> routed env ts (ns_RemoteAddress s)"
    proof
      assume "routed env ts (ns_RemoteAddress s)"
      then have "routed env ?ts1 (ns_RemoteAddress s)" by (simp add: routed_def ip)
      from sendPacket_routed [OF this, of "serializeTCPPacket (data_header env s) ?d"] send Some show False by auto
    qed
    moreover have "sent [?d] (\<lambda>h d. SeqNum h = snd_NXT (so_snd s) \<and> DataOffset h = 5) ts ?ts2"
      by (rule sentI [where h = "data_header env s" and eff = eff and dst = "ns_RemoteAddress s"])
         (simp add: put_socket_def, rule hd(3))
    moreover have "normals ?ts2 r = Some ?s" by (simp add: put_socket_def)
    ultimately show ?thesis using q2 b(3,4) len
      by (intro exI [of _ "Returned (Some (Msg e))"] exI [of _ ?ts2] exI [of _ "(so_snd s)\<lparr>snd_buf := b\<rparr>"])
        (simp add: segment_sent_def Let_def quiet_def)
  qed
qed

text \<open>What one step of the writer keeps, and the segment it may send.\<close>

definition good_segment :: "u32 \<Rightarrow> byte list \<Rightarrow> TCPHeader \<Rightarrow> byte list \<Rightarrow> bool" where
  "good_segment base W h d \<longleftrightarrow> segment_of base W (SeqNum h) d \<and> d \<noteq> [] \<and>
     length d \<le> MAX_TCP_PAYLOAD \<and> DataOffset h = 5"

definition step_ok ::
  "('rb \<Rightarrow> bool) \<Rightarrow> ('rb \<Rightarrow> byte list) \<Rightarrow> u32 \<Rightarrow> byte list \<Rightarrow> nat \<Rightarrow> 'rb NormalSocket \<Rightarrow> 'rb TCPStack \<Rightarrow> writer \<Rightarrow> 'rb TCPStack \<Rightarrow> bool" where
  "step_ok good content base W r s ts w' ts' \<longleftrightarrow> (\<exists>s' ds. normals ts' r = Some (s\<lparr>so_snd := s'\<rparr>) \<and> quiet good ts ts' \<and>
     writer_inv content base W w' s' \<and> sent ds (good_segment base W) ts ts')"

lemma step_okI:
  "normals ts' r = Some (s\<lparr>so_snd := s'\<rparr>) \<Longrightarrow> quiet good ts ts' \<Longrightarrow> writer_inv content base W w' s' \<Longrightarrow>
   sent ds (good_segment base W) ts ts' \<Longrightarrow> step_ok good content base W r s ts w' ts'"
  unfolding step_ok_def by blast

lemma sent_Nil [simp]: "sent [] P ts ts' \<longleftrightarrow> outbox ts' = outbox ts"
  by (simp add: sent_def)

lemma same_sock: "normals ts r = Some s \<Longrightarrow> normals ts r = Some (s\<lparr>so_snd := so_snd s\<rparr>)"
  by simp

lemma fill_ok:
  assumes env: "env_ok env good content cap" and ok: "host_ok good ts" and s: "normals ts r = Some s"
    and inv: "writer_inv content base W (Writing d) (so_snd s)" and run: "fill_buffer env r d ts = Ret (w', ts')"
  shows "step_ok good content base W r s ts w' ts'"
proof (cases "d = []")
  case True
  then have "w' = Returned None" "ts' = ts" using run by (simp_all add: fill_buffer_def)
  then show ?thesis
    using step_okI [OF same_sock [OF s] quiet_refl, of content base W w' "[]"] inv True by (simp add: writer_inv_def)
next
  case False
  let ?c = "content (snd_buf (so_snd s))"
  let ?n = "min (length d) (cap (snd_buf (so_snd s)) - length ?c)"
  obtain b where b: "fill_buffer env r d ts = Ret (Sending (drop ?n d), ts')" "quiet good ts ts'"
    "ts' = put_socket r (s\<lparr>so_snd := (so_snd s)\<lparr>snd_buf := b\<rparr>\<rparr>) ts" "content b = ?c @ take ?n d"
    using fill_buffer_step [OF env ok s False] run by auto
  have "writer_inv content base W (Sending (drop ?n d)) ((so_snd s)\<lparr>snd_buf := b\<rparr>)"
    using inv b(4) by (auto simp: writer_inv_def)
  then show ?thesis
    using step_okI [of ts' r "(so_snd s)\<lparr>snd_buf := b\<rparr>" s good ts content base W w' "[]"] b run
    by (simp add: put_socket_def)
qed

lemma hd_drop: "k \<le> length W \<Longrightarrow> (x # c) @ d = drop k W \<Longrightarrow> k < length W \<and> x = W ! k \<and> c @ d = drop (k + 1) W"
proof -
  assume "(x # c) @ d = drop k W"
  then have eq: "drop k W = x # (c @ d)" by simp
  then have lt: "k < length W" by (metis drop_all leI list.distinct(1))
  with eq show ?thesis using Cons_nth_drop_Suc [OF lt] by simp
qed

lemma try_send_ok:
  assumes env: "env_ok env good content cap" and ok: "host_ok good ts" and s: "normals ts r = Some s"
    and inv: "writer_inv content base W (Sending d) (so_snd s)" and run: "try_send env r d ts = Ret (w', ts')"
  shows "step_ok good content base W r s ts w' ts'"
proof -
  let ?b = "snd_buf (so_snd s)"
  have g: "good ?b" using sock_good [OF ok s] by (simp add: buffers_ok_def)
  obtain k where k: "snd_NXT (so_snd s) = base + word_of_nat k" "k \<le> length W" "content ?b @ d = drop k W"
    using inv by (auto simp: writer_inv_def)
  have len: "rb_Length (e_rb env) ?b = length (content ?b)" by (rule buffer_laws(1) [OF env g])
  consider "content ?b = []" | "content ?b \<noteq> []" "0 < snd_WND (so_snd s)" "freeWindowSpace (so_snd s) = 0"
    | "content ?b \<noteq> []" "0 < snd_WND (so_snd s)" "freeWindowSpace (so_snd s) \<noteq> 0"
    | "content ?b \<noteq> []" "snd_WND (so_snd s) = 0"
    by (metis word_gt_0)
  then show ?thesis
  proof cases
    case 1
    then have "w' = Writing d" "ts' = ts" using run s len by (simp_all add: try_send_def socket_of_def)
    then show ?thesis using step_okI [OF same_sock [OF s] quiet_refl, of content base W w' "[]"] inv by (simp add: writer_inv_def)
  next
    case 2
    then have "w' = Sending d" "ts' = ts" using run s len by (simp_all add: try_send_def socket_of_def)
    then show ?thesis using step_okI [OF same_sock [OF s] quiet_refl, of content base W w' "[]"] inv by simp
  next
    case 3
    have eq: "try_send env r d ts = send_segment env r s d ts"
      using 3 s len by (simp add: try_send_def socket_of_def)
    let ?d = "next_cut content (so_snd s)"
    obtain s' where s': "normals ts' r = Some (s\<lparr>so_snd := s'\<rparr>)" "quiet good ts ts'"
      "content (snd_buf s') = drop (length ?d) (content ?b)"
      "sent [?d] (\<lambda>h d. SeqNum h = snd_NXT (so_snd s) \<and> DataOffset h = 5) ts ts'"
      "w' = Sending d \<and> snd_NXT s' = snd_NXT (so_snd s) + word_of_nat (length ?d) \<or> (\<exists>e. w' = Returned (Some e))
        \<and> snd_NXT s' = snd_NXT (so_snd s)"
      "inFlightPackets s' = inFlightPackets (so_snd s) @ [data_packet env s ?d] \<or> inFlightPackets s' = inFlightPackets (so_snd s)"
      using send_segment_step [OF env ok s 3(1,3), of d] run eq by (auto simp: segment_sent_def Let_def)
    note seg = take_segment [OF k(2,3), where n = "min (unat (freeWindowSpace (so_snd s))) MAX_TCP_PAYLOAD",
        folded next_cut_def]
    have "?d \<noteq> []" "length ?d \<le> MAX_TCP_PAYLOAD"
      using 3(1,3) by (simp_all add: next_cut_def unat_gt_0 MAX_TCP_PAYLOAD_def)
    then have out: "sent [?d] (good_segment base W) ts ts'"
      by (intro sent_mono [OF s'(4)]) (use seg(1) k(1) in \<open>simp add: good_segment_def\<close>)
    have "in_flight_ok base W [data_packet env s ?d]"
      using seg(1) k(1) \<open>?d \<noteq> []\<close> \<open>length ?d \<le> MAX_TCP_PAYLOAD\<close> by (simp add: in_flight_ok_def data_packet_def)
    then have fly: "in_flight_ok base W (inFlightPackets s')" using s'(6) inv by (auto simp: writer_inv_def)
    have "writer_inv content base W w' s'"
    proof (cases "w' = Sending d")
      case True
      have "content (snd_buf s') @ d = drop (k + length ?d) W"
        using seg(2) unfolding s'(3) next_cut_def drop_length_take .
      then have "writer_ok W (k + length ?d) (content (snd_buf s')) w'" using True seg(3) by simp
      moreover have "snd_NXT s' = base + word_of_nat (k + length ?d)" using s'(5) True k(1) by simp
      ultimately show ?thesis using fly unfolding writer_inv_def by blast
    next
      case False
      then obtain e where "w' = Returned (Some e)" "snd_NXT s' = snd_NXT (so_snd s)" using s'(5) by blast
      then show ?thesis using k(1) fly by (auto simp: writer_inv_def)
    qed
    then show ?thesis by (rule step_okI [OF s'(1,2) _ out])
  next
    case 4
    obtain x c where c: "content ?b = x # c" using 4(1) by (cases "content ?b") auto
    obtain err b where b: "rb_TryRead (e_rb env) ?b 1 = ([x], err, b)" "good b" "content b = c"
      using TryRead_law [OF env g] c by auto
    have eq: "w' = Probing d [x] 0" "ts' = put_socket r (s\<lparr>so_snd := (so_snd s)\<lparr>snd_buf := b\<rparr>\<rparr>) ts"
      using run 4 s len b(1) by (simp_all add: try_send_def socket_of_def start_probe_def)
    have "writer_inv content base W w' ((so_snd s)\<lparr>snd_buf := b\<rparr>)"
      using inv k(1) hd_drop [OF k(2) k(3) [unfolded c]] by (auto simp: writer_inv_def eq(1) b(3))
    moreover have "quiet good ts ts'" using put_send_facts(1) [OF ok s _ b(2)] by (simp add: eq(2))
    ultimately show ?thesis
      using step_okI [of ts' r "(so_snd s)\<lparr>snd_buf := b\<rparr>" s good ts content base W w' "[]"] by (simp add: eq(2) put_socket_def)
  qed
qed

lemma probe_ok:
  assumes env: "env_ok env good content cap" and ok: "host_ok good ts" and s: "normals ts r = Some s"
    and inv: "writer_inv content base W (Probing d b n) (so_snd s)" and run: "probe env r d b n ts = Ret (w', ts')"
  shows "step_ok good content base W r s ts w' ts'"
proof -
  obtain k where k: "snd_NXT (so_snd s) = base + word_of_nat k" "k < length W" "b = [W ! k]"
    "content (snd_buf (so_snd s)) @ d = drop (k + 1) W"
    using inv by (auto simp: writer_inv_def)
  consider "snd_WND (so_snd s) = 0 \<and> n < ZWP_RETRIES" | "\<not> (snd_WND (so_snd s) = 0 \<and> n < ZWP_RETRIES)" "ZWP_RETRIES \<le> n"
    | "\<not> (snd_WND (so_snd s) = 0 \<and> n < ZWP_RETRIES)" "\<not> ZWP_RETRIES \<le> n" by blast
  then show ?thesis
  proof cases
    case 1
    obtain err eff where send: "sendPacket env (ns_RemoteAddress s) (serializeTCPPacket (data_header env s) b) ts =
        Ret (err, ts\<lparr>outbox := outbox ts @ [(ns_RemoteAddress s, serializeTCPPacket (data_header env s) b, eff)]\<rparr>)"
      using sendPacket_Ret [OF host_okD(4) [OF ok] env_okD(2) [OF env]] by blast
    have ts': "ts' = ts\<lparr>outbox := outbox ts @ [(ns_RemoteAddress s, serializeTCPPacket (data_header env s) b, eff)]\<rparr>"
      "w' = Probing d b (n + 1) \<or> (\<exists>e. w' = Returned (Some e))"
      using run 1 s send by (auto simp: probe_def socket_of_def split: if_splits)
    have "segment_of base W (base + word_of_nat k) b"
      unfolding segment_of_def by (rule exI [of _ k]) (use k in \<open>simp add: Cons_nth_drop_Suc [symmetric]\<close>)
    then have "good_segment base W (data_header env s) b"
      using k by (simp add: good_segment_def data_header_def make_header_def MAX_TCP_PAYLOAD_def)
    then have "sent [b] (good_segment base W) ts ts'" by (intro sentI) (simp_all add: ts'(1))
    moreover have "writer_inv content base W w' (so_snd s)" using inv ts'(2) k by (auto simp: writer_inv_def)
    ultimately show ?thesis
      using step_okI [of ts' r "so_snd s" s good ts content base W w' "[b]"] s by (simp add: ts'(1))
  next
    case 2
    then have "ts' = ts" "\<exists>e. w' = Returned (Some e)" using run s by (auto simp: probe_def socket_of_def)
    then show ?thesis
      using step_okI [OF same_sock [OF s] quiet_refl writer_inv_failed [OF inv], of "[]"] by auto
  next
    case 3
    let ?s = "(so_snd s)\<lparr>snd_NXT := snd_NXT (so_snd s) + 1\<rparr>"
    have eq: "w' = Sending d" "ts' = put_socket r (s\<lparr>so_snd := ?s\<rparr>) ts"
      using run 3 s by (auto simp: probe_def socket_of_def)
    have "snd_NXT ?s = base + word_of_nat (k + 1)" using k(1) by simp
    moreover have "writer_ok W (k + 1) (content (snd_buf ?s)) w'" using k eq(1) by simp
    moreover have "in_flight_ok base W (inFlightPackets ?s)" using inv by (simp add: writer_inv_def)
    ultimately have "writer_inv content base W w' ?s" unfolding writer_inv_def by blast
    moreover have "quiet good ts ts'"
      using put_send_facts(1) [OF ok s, of ?s "snd_buf (so_snd s)"] sock_good [OF ok s] by (simp add: eq(2) buffers_ok_def)
    ultimately show ?thesis
      using step_okI [of ts' r ?s s good ts content base W w' "[]"] by (simp add: eq(2) put_socket_def)
  qed
qed

lemma writer_step_ok:
  assumes "env_ok env good content cap" "host_ok good ts" "normals ts r = Some s"
    and "writer_inv content base W w (so_snd s)" "writer_step env r w ts = Ret (w', ts')"
  shows "step_ok good content base W r s ts w' ts'"
proof (cases w)
  case (Returned e)
  then show ?thesis
    using assms(4,5) step_okI [OF same_sock [OF assms(3)] quiet_refl, of content base W w' "[]"] by simp
qed (use assms fill_ok try_send_ok probe_ok in \<open>simp_all, blast+\<close>)

end
