(* ===== verification/TCP_Window.thy ===== *)
theory TCP_Window
  imports TCP_Writer_Props
begin

text \<open>
  The sending loop against the peer's window: how far it may run ahead, where the 16-bit
  arithmetic of the window breaks, and that a write into a large enough window ends.
\<close>

section \<open>The window\<close>

definition in_flight :: "'rb SND \<Rightarrow> u32" where
  "in_flight s = snd_NXT s - UNA s"

lemma unat_ucast_u16: "unat (x :: u32) < 2 ^ 16 \<Longrightarrow> unat (ucast x :: u16) = unat x"
  by (simp add: unsigned_ucast_eq take_bit_nat_eq_self)

lemma free_space:
  assumes "unat (in_flight s) \<le> unat (snd_WND s)"
  shows "unat (freeWindowSpace s) = unat (snd_WND s) - unat (in_flight s)"
proof -
  have "unat (snd_WND s) < 2 ^ 16" using unsigned_less [of "snd_WND s", where 'a = nat] by simp
  then have u: "unat (ucast (in_flight s) :: u16) = unat (in_flight s)" using assms by (intro unat_ucast_u16) simp
  then have "ucast (in_flight s) \<le> snd_WND s" using assms by (simp add: word_le_nat_alt)
  then show ?thesis by (simp add: freeWindowSpace_def in_flight_def [symmetric] unat_sub u)
qed

lemma free_space_wraps:
  assumes "unat (snd_WND s) < unat (in_flight s)" "unat (in_flight s) < 2 ^ 16"
  shows "unat (freeWindowSpace s) = 2 ^ 16 + unat (snd_WND s) - unat (in_flight s)"
proof -
  have u: "unat (ucast (in_flight s) :: u16) = unat (in_flight s)" using assms(2) by (rule unat_ucast_u16)
  have "unat (snd_WND s - ucast (in_flight s)) = (2 ^ 16 + unat (snd_WND s) - unat (in_flight s)) mod 2 ^ 16"
    using u by (simp add: unat_sub_if_size word_size assms)
       (use assms in \<open>simp add: u\<close>)
  with assms show ?thesis by (simp add: freeWindowSpace_def in_flight_def)
qed

lemma length_next_cut: "length (next_cut content s) =
  min (min (unat (freeWindowSpace s)) 1000) (length (content (snd_buf s)))"
  by (simp add: next_cut_def MAX_TCP_PAYLOAD_def min.commute)

lemma in_flight_grows:
  assumes "snd_NXT s' = snd_NXT s + word_of_nat n" "UNA s' = UNA s" "unat (in_flight s) + n < 2 ^ 32"
  shows "unat (in_flight s') = unat (in_flight s) + n"
proof -
  have n: "unat (word_of_nat n :: u32) = n" using assms(3) by (simp add: unsigned_of_nat take_bit_nat_eq_self)
  have "in_flight s' = in_flight s + word_of_nat n" using assms(1,2) by (simp add: in_flight_def algebra_simps)
  moreover have "unat (in_flight s) + unat (word_of_nat n :: u32) < 2 ^ LENGTH(32)" using assms(3) n by simp
  ultimately show ?thesis using n by (simp add: unat_add_lem [THEN iffD1])
qed

lemma try_send_eq:
  assumes "env_ok env good content cap" "host_ok good ts" "normals ts r = Some s"
    and "content (snd_buf (so_snd s)) \<noteq> []" "0 < snd_WND (so_snd s)"
  shows "try_send env r d ts = (if freeWindowSpace (so_snd s) = 0 then Ret (Sending d, ts) else send_segment env r s d ts)"
proof -
  have "good (snd_buf (so_snd s))" using sock_good [OF assms(2,3)] by (simp add: buffers_ok_def)
  then show ?thesis
    using buffer_laws(1) [OF assms(1)] assms(3-5) by (simp add: try_send_def socket_of_def)
qed

lemma try_send_empty:
  assumes "env_ok env good content cap" "host_ok good ts" "normals ts r = Some s"
    and "content (snd_buf (so_snd s)) = []"
  shows "try_send env r d ts = Ret (Writing d, ts)"
proof -
  have "good (snd_buf (so_snd s))" using sock_good [OF assms(2,3)] by (simp add: buffers_ok_def)
  then show ?thesis using buffer_laws(1) [OF assms(1)] assms(3,4) by (simp add: try_send_def socket_of_def)
qed


text \<open>
  C31. A shrunk window opens the gate. When the peer advertises a non-zero window smaller than what
  is already in flight, the 16-bit subtraction wraps around: the loop takes the window for
  nearly 65536 bytes and sends up to 1000 bytes more on every step.
\<close>

theorem shrunk_window_wraps:
  assumes "env_ok env good content cap" "host_ok good ts" "normals ts r = Some s"
    and "0 < snd_WND (so_snd s)" "unat (snd_WND (so_snd s)) < unat (in_flight (so_snd s))"
    and "unat (in_flight (so_snd s)) < 2 ^ 16"
    and "content (snd_buf (so_snd s)) \<noteq> []" "routed env ts (ns_RemoteAddress s)"
  shows "\<exists>ts' s' n. writer_step env r (Sending d) ts = Ret (Sending d, ts') \<and>
    normals ts' r = Some (s\<lparr>so_snd := s'\<rparr>) \<and> 0 < n \<and> unat (in_flight s') = unat (in_flight (so_snd s)) + n \<and>
    n = min (min (2 ^ 16 + unat (snd_WND (so_snd s)) - unat (in_flight (so_snd s))) 1000) (length (content (snd_buf (so_snd s))))"
proof -
  let ?s = "so_snd s"
  note free = free_space_wraps [OF assms(5,6)]
  have nz: "freeWindowSpace ?s \<noteq> 0"
  proof
    assume "freeWindowSpace ?s = 0"
    then show False using free assms(6) by simp
  qed
  obtain ts' s' where s': "send_segment env r s d ts = Ret (Sending d, ts')" "normals ts' r = Some (s\<lparr>so_snd := s'\<rparr>)"
    "UNA s' = UNA ?s" "snd_NXT s' = snd_NXT ?s + word_of_nat (length (next_cut content ?s))"
    using send_segment_step [OF assms(1-3,7) nz, of d] assms(8) by (auto simp: segment_sent_def Let_def)
  have n: "length (next_cut content ?s) =
      min (min (2 ^ 16 + unat (snd_WND ?s) - unat (in_flight ?s)) 1000) (length (content (snd_buf ?s)))"
    by (simp add: length_next_cut free)
  have "unat (in_flight s') = unat (in_flight ?s) + length (next_cut content ?s)"
    by (rule in_flight_grows [OF s'(4,3)]) (use n assms(6) in simp)
  moreover have "0 < length (next_cut content ?s)" using n assms(6,7) by simp
  ultimately show ?thesis
    using s'(1,2) n try_send_eq [OF assms(1-3,7,4), of d] nz
    by (intro exI [of _ ts'] exI [of _ s'] exI [of _ "length (next_cut content ?s)"]) simp
qed

section \<open>A write that fits the window\<close>

text \<open>The segments handed to IP, with their headers and payloads, numbered without gaps.\<close>

type_synonym sent_segment = "Addr \<times> TCPHeader \<times> byte list \<times> (string + ip_effect)"

definition wire :: "sent_segment \<Rightarrow> Addr \<times> byte list \<times> (string + ip_effect)" where
  "wire x = (case x of (dst, h, d, eff) \<Rightarrow> (dst, serializeTCPPacket h d, eff))"

definition payloads :: "sent_segment list \<Rightarrow> byte list" where
  "payloads xs = concat (map (\<lambda>(dst, h, d, eff). d) xs)"

fun numbered :: "u32 \<Rightarrow> sent_segment list \<Rightarrow> bool" where
  "numbered q [] \<longleftrightarrow> True"
| "numbered q ((dst, h, d, eff) # xs) \<longleftrightarrow> SeqNum h = q \<and> length d \<le> 1000 \<and> numbered (q + word_of_nat (length d)) xs"

text \<open>Everything a run sent from \<open>ts\<close> to \<open>ts'\<close> is \<open>bs\<close>, from sequence number \<open>q\<close> on.\<close>

definition transmits :: "u32 \<Rightarrow> byte list \<Rightarrow> 'rb TCPStack \<Rightarrow> 'rb TCPStack \<Rightarrow> bool" where
  "transmits q bs ts ts' \<longleftrightarrow> (\<exists>xs. outbox ts' = outbox ts @ map wire xs \<and> numbered q xs \<and> payloads xs = bs)"

lemma transmits_Nil: "outbox ts' = outbox ts \<Longrightarrow> transmits q [] ts ts'"
  unfolding transmits_def by (rule exI [of _ "[]"]) (simp add: payloads_def)

lemma transmits_step:
  assumes "sent [c] (\<lambda>h d. SeqNum h = q \<and> DataOffset h = 5) ts ts'" "length c \<le> 1000"
    and "transmits (q + word_of_nat (length c)) bs ts' ts''"
  shows "transmits q (c @ bs) ts ts''"
proof -
  obtain dst h eff where h: "outbox ts' = outbox ts @ [(dst, serializeTCPPacket h c, eff)]" "SeqNum h = q"
    using assms(1) by (auto simp: sent_def)
  obtain xs where xs: "outbox ts'' = outbox ts' @ map wire xs" "numbered (q + word_of_nat (length c)) xs" "payloads xs = bs"
    using assms(3) unfolding transmits_def by blast
  show ?thesis
    unfolding transmits_def
    by (rule exI [of _ "(dst, h, c, eff) # xs"]) (use h xs assms(2) in \<open>simp add: wire_def payloads_def\<close>)
qed

lemma transmits_same: "outbox ts' = outbox ts \<Longrightarrow> transmits q bs ts' ts'' \<Longrightarrow> transmits q bs ts ts''"
  by (simp add: transmits_def)

text \<open>The hypotheses of a write: room in the window for all that is to be sent.\<close>

definition fits :: "'rb tcp_env \<Rightarrow> ('rb \<Rightarrow> bool) \<Rightarrow> ('rb \<Rightarrow> byte list) \<Rightarrow> ('rb \<Rightarrow> nat) \<Rightarrow> nat \<Rightarrow> byte list \<Rightarrow>
    'rb NormalSocket \<Rightarrow> 'rb TCPStack \<Rightarrow> bool" where
  "fits env good content cap r d s ts \<longleftrightarrow> env_ok env good content cap \<and> host_ok good ts \<and> normals ts r = Some s \<and>
     routed env ts (ns_RemoteAddress s) \<and> 0 < cap (snd_buf (so_snd s)) \<and>
     unat (in_flight (so_snd s)) + length (content (snd_buf (so_snd s))) + length d \<le> unat (snd_WND (so_snd s))"

definition done_with :: "nat \<Rightarrow> ('rb \<Rightarrow> byte list) \<Rightarrow> 'rb NormalSocket \<Rightarrow> byte list \<Rightarrow> 'rb TCPStack \<Rightarrow> (writer \<times> 'rb TCPStack) go \<Rightarrow> bool" where
  "done_with r content s bs ts m \<longleftrightarrow> (\<exists>ts' s'. m = Ret (Returned None, ts') \<and> normals ts' r = Some (s\<lparr>so_snd := s'\<rparr>) \<and>
     content (snd_buf s') = [] \<and> snd_NXT s' = snd_NXT (so_snd s) + word_of_nat (length bs) \<and>
     transmits (snd_NXT (so_snd s)) bs ts ts')"

lemma writer_run_Returned [simp]: "writer_run n env r (Returned e) ts = Ret (Returned e, ts)"
  by (induction n) simp_all

lemma run_Writing_Nil:
  assumes "fits env good content cap r [] s ts" "content (snd_buf (so_snd s)) = []"
  shows "done_with r content s [] ts (writer_run (Suc n) env r (Writing []) ts)"
  unfolding done_with_def
  by (rule exI [of _ ts], rule exI [of _ "so_snd s"])
     (use assms in \<open>simp add: fits_def fill_buffer_def transmits_Nil\<close>)

lemma done_with_later:
  assumes "done_with r content (s\<lparr>so_snd := s1\<rparr>) bs ts1 m" "snd_NXT s1 = snd_NXT (so_snd s)" "outbox ts1 = outbox ts"
  shows "done_with r content s bs ts m"
  using assms transmits_same [OF assms(3)] unfolding done_with_def by fastforce

lemma run_fill:
  assumes f: "fits env good content cap r d s ts" and d: "d \<noteq> []"
  shows "\<exists>ts1 s1 d1. writer_step env r (Writing d) ts = Ret (Sending d1, ts1) \<and> fits env good content cap r d1 (s\<lparr>so_snd := s1\<rparr>) ts1 \<and>
    snd_NXT s1 = snd_NXT (so_snd s) \<and> outbox ts1 = outbox ts \<and> content (snd_buf s1) \<noteq> [] \<and>
    content (snd_buf s1) @ d1 = content (snd_buf (so_snd s)) @ d"
proof -
  let ?b = "snd_buf (so_snd s)" and ?n = "min (length d) (cap (snd_buf (so_snd s)) - length (content (snd_buf (so_snd s))))"
  have a: "env_ok env good content cap" "host_ok good ts" "normals ts r = Some s" using f by (simp_all add: fits_def)
  obtain ts' b where b: "fill_buffer env r d ts = Ret (Sending (drop ?n d), ts')"
    "ts' = put_socket r (s\<lparr>so_snd := (so_snd s)\<lparr>snd_buf := b\<rparr>\<rparr>) ts" "quiet good ts ts'" "cap b = cap ?b"
    "content b = content ?b @ take ?n d"
    using fill_buffer_step [OF a d] by blast
  have ne: "content b \<noteq> []" using d f b(5) by (cases "content ?b = []") (simp_all add: fits_def)
  have cat: "content b @ drop ?n d = content ?b @ d" by (simp add: b(5))
  then have "length (content b) + length (drop ?n d) = length (content ?b) + length d"
    by (metis length_append)
  then have "unat (in_flight (so_snd s)) + length (content b) + length (drop ?n d) \<le> unat (snd_WND (so_snd s))"
    using f unfolding fits_def by linarith
  then have "fits env good content cap r (drop ?n d) (s\<lparr>so_snd := (so_snd s)\<lparr>snd_buf := b\<rparr>\<rparr>) ts'"
    using f b(2-4) quiet_host_ok [OF b(3)] by (simp add: fits_def in_flight_def put_socket_def routed_def del: length_drop)
  then show ?thesis
    using b(1,2) ne cat by (intro exI [of _ ts'] exI [of _ "(so_snd s)\<lparr>snd_buf := b\<rparr>"] exI [of _ "drop ?n d"])
      (simp add: put_socket_def)
qed

lemma run_send:
  assumes f: "fits env good content cap r d s ts" and c: "content (snd_buf (so_snd s)) \<noteq> []"
  shows "\<exists>ts1 s1 bs. writer_step env r (Sending d) ts = Ret (Sending d, ts1) \<and> fits env good content cap r d (s\<lparr>so_snd := s1\<rparr>) ts1 \<and>
    bs \<noteq> [] \<and> content (snd_buf (so_snd s)) = bs @ content (snd_buf s1) \<and> length bs \<le> 1000 \<and>
    snd_NXT s1 = snd_NXT (so_snd s) + word_of_nat (length bs) \<and>
    sent [bs] (\<lambda>h d. SeqNum h = snd_NXT (so_snd s) \<and> DataOffset h = 5) ts ts1"
proof -
  let ?s = "so_snd s"
  have a: "env_ok env good content cap" "host_ok good ts" "normals ts r = Some s" "routed env ts (ns_RemoteAddress s)"
    "unat (in_flight ?s) + length (content (snd_buf ?s)) + length d \<le> unat (snd_WND ?s)"
    using f by (simp_all add: fits_def)
  have pos: "0 < length (content (snd_buf ?s))" using c by simp
  have w: "0 < snd_WND ?s"
  proof (rule ccontr)
    assume "\<not> 0 < snd_WND ?s"
    then have "unat (snd_WND ?s) = 0" by (simp add: word_gt_0)
    with a(5) pos show False by linarith
  qed
  have free: "unat (freeWindowSpace ?s) = unat (snd_WND ?s) - unat (in_flight ?s)" using a(5) by (intro free_space) simp
  have nz: "freeWindowSpace ?s \<noteq> 0"
  proof
    assume "freeWindowSpace ?s = 0"
    then have "unat (freeWindowSpace ?s) = 0" by simp
    with free a(5) pos show False by linarith
  qed
  obtain ts1 s1 where s1: "send_segment env r s d ts = Ret (Sending d, ts1)"
    "segment_sent good content cap env r s d ts (Sending d) ts1 s1"
    using send_segment_step [OF a(1-3) c nz, of d] a(4) by (auto simp: segment_sent_def Let_def)
  let ?bs = "next_cut content ?s"
  have len: "?bs \<noteq> []" "length ?bs \<le> 1000"
    using c nz by (simp_all add: next_cut_def MAX_TCP_PAYLOAD_def unat_gt_0)
  have c1: "content (snd_buf s1) = drop (length ?bs) (content (snd_buf ?s))"
    using s1(2) by (simp add: segment_sent_def Let_def)
  then have cat: "content (snd_buf ?s) = ?bs @ content (snd_buf s1)"
    by (simp add: next_cut_def drop_length_take del: length_take)
  have "unat (in_flight s1) = unat (in_flight ?s) + length ?bs"
  proof (rule in_flight_grows)
    have "length ?bs \<le> length (content (snd_buf ?s))" using arg_cong [OF cat, of length] by simp
    moreover have "unat (snd_WND ?s) < 2 ^ 16" using unsigned_less [of "snd_WND ?s", where 'a = nat] by simp
    ultimately show "unat (in_flight ?s) + length ?bs < 2 ^ 32" using a(5) by simp
  qed (use s1(2) in \<open>simp_all add: segment_sent_def Let_def\<close>)
  then have "fits env good content cap r d (s\<lparr>so_snd := s1\<rparr>) ts1"
    using f s1(2) quiet_host_ok [of good ts ts1] arg_cong [OF cat, of length]
    by (simp add: fits_def segment_sent_def Let_def routed_def)
  moreover have "writer_step env r (Sending d) ts = Ret (Sending d, ts1)"
    using s1(1) nz try_send_eq [OF a(1-3) c w, of d] by simp
  ultimately show ?thesis
    using s1(2) len cat by (intro exI [of _ ts1] exI [of _ s1] exI [of _ ?bs]) (simp add: segment_sent_def Let_def)
qed

text \<open>A bound on the steps: four for each byte, and the head of the loops.\<close>

definition steps_left :: "byte list \<Rightarrow> writer \<Rightarrow> nat" where
  "steps_left c w = (case w of
     Writing d \<Rightarrow> 4 * (length c + length d) + 2
   | Sending d \<Rightarrow> 4 * (length c + length d) + (if c = [] then 3 else 1)
   | _ \<Rightarrow> 0)"

lemma transmits_done:
  assumes "done_with r content (s\<lparr>so_snd := s1\<rparr>) bs' ts1 m" "length bs \<le> 1000"
    "snd_NXT s1 = snd_NXT (so_snd s) + word_of_nat (length bs)"
    "sent [bs] (\<lambda>h d. SeqNum h = snd_NXT (so_snd s) \<and> DataOffset h = 5) ts ts1"
  shows "done_with r content s (bs @ bs') ts m"
proof -
  obtain ts' s' where s': "m = Ret (Returned None, ts')" "normals ts' r = Some (s\<lparr>so_snd := s'\<rparr>)"
    "content (snd_buf s') = []" "snd_NXT s' = snd_NXT s1 + word_of_nat (length bs')" "transmits (snd_NXT s1) bs' ts1 ts'"
    using assms(1) unfolding done_with_def by auto
  have "transmits (snd_NXT (so_snd s)) (bs @ bs') ts ts'"
    by (rule transmits_step [OF assms(4,2)]) (use s'(5) assms(3) in simp)
  then show ?thesis
    unfolding done_with_def using s' assms(3) by (intro exI [of _ ts'] exI [of _ s']) simp
qed

lemma write_run:
  "fits env good content cap r d s ts \<Longrightarrow> w = Writing d \<and> (d = [] \<longrightarrow> content (snd_buf (so_snd s)) = []) \<or> w = Sending d \<Longrightarrow>
   steps_left (content (snd_buf (so_snd s))) w \<le> n \<Longrightarrow>
   done_with r content s (content (snd_buf (so_snd s)) @ d) ts (writer_run n env r w ts)"
proof (induction n arbitrary: w d s ts)
  case 0
  then show ?case by (auto simp: steps_left_def split: if_splits)
next
  case (Suc n)
  let ?c = "content (snd_buf (so_snd s))"
  show ?case
  proof (cases "w = Sending d")
    case True
    show ?thesis
    proof (cases "?c = []")
      case empty: True
      have "try_send env r d ts = Ret (Writing d, ts)"
        using try_send_empty [of env good content cap ts r s d] Suc.prems(1) empty by (simp add: fits_def)
      moreover have "done_with r content s (?c @ d) ts (writer_run n env r (Writing d) ts)"
        by (rule Suc.IH [OF Suc.prems(1)]) (use Suc.prems(3) True empty in \<open>simp_all add: steps_left_def\<close>)
      ultimately show ?thesis using True by simp
    next
      case False
      obtain ts1 s1 bs where s1: "writer_step env r (Sending d) ts = Ret (Sending d, ts1)"
        "fits env good content cap r d (s\<lparr>so_snd := s1\<rparr>) ts1" "bs \<noteq> []" "?c = bs @ content (snd_buf s1)" "length bs \<le> 1000"
        "snd_NXT s1 = snd_NXT (so_snd s) + word_of_nat (length bs)"
        "sent [bs] (\<lambda>h d. SeqNum h = snd_NXT (so_snd s) \<and> DataOffset h = 5) ts ts1"
        using run_send [OF Suc.prems(1) False] by blast
      have "steps_left (content (snd_buf s1)) (Sending d) \<le> n"
        using Suc.prems(3) True False s1(3,4) by (cases bs) (simp_all add: steps_left_def)
      then have "done_with r content (s\<lparr>so_snd := s1\<rparr>) (content (snd_buf s1) @ d) ts1 (writer_run n env r (Sending d) ts1)"
        using Suc.IH [OF s1(2), of "Sending d"] by simp
      from transmits_done [OF this s1(5-7)] s1(1) True show ?thesis by (simp add: s1(4))
    qed
  next
    case False
    then have w: "w = Writing d" "d = [] \<longrightarrow> ?c = []" using Suc.prems(2) by simp_all
    show ?thesis
    proof (cases "d = []")
      case True
      then show ?thesis using run_Writing_Nil [of env good content cap r s ts n] Suc.prems(1) w by simp
    next
      case d: False
      obtain ts1 s1 d1 where s1: "writer_step env r (Writing d) ts = Ret (Sending d1, ts1)"
        "fits env good content cap r d1 (s\<lparr>so_snd := s1\<rparr>) ts1" "snd_NXT s1 = snd_NXT (so_snd s)" "outbox ts1 = outbox ts"
        "content (snd_buf s1) \<noteq> []" "content (snd_buf s1) @ d1 = ?c @ d"
        using run_fill [OF Suc.prems(1) d] by blast
      have "length (content (snd_buf s1)) + length d1 = length ?c + length d"
        using arg_cong [OF s1(6), of length] by simp
      then have "steps_left (content (snd_buf s1)) (Sending d1) \<le> n"
        using Suc.prems(3) w s1(5) by (simp add: steps_left_def)
      then have "done_with r content (s\<lparr>so_snd := s1\<rparr>) (?c @ d) ts1 (writer_run n env r (Sending d1) ts1)"
        using Suc.IH [OF s1(2), of "Sending d1"] s1(6) by simp
      from done_with_later [OF this s1(3,4)] s1(1) w show ?thesis by simp
    qed
  qed
qed

text \<open>
  C32. A write that fits ends. If the window has room for what is in flight, in the buffer and in
  the argument, then without any acknowledgement the call returns without an error after at most
  four steps a byte, with the buffer empty, the next sequence number advanced by the bytes
  sent, and exactly those bytes handed to IP, in order, in segments of at most 1000 bytes
  numbered without gaps.
\<close>

theorem write_completes:
  assumes "env_ok env good content cap" "host_ok good ts" "normals ts r = Some s"
    and "routed env ts (ns_RemoteAddress s)" "0 < cap (snd_buf (so_snd s))" "data \<noteq> []"
    and "unat (in_flight (so_snd s)) + length (content (snd_buf (so_snd s))) + length data \<le> unat (snd_WND (so_snd s))"
    and "4 * (length (content (snd_buf (so_snd s))) + length data) + 2 \<le> n"
  shows "\<exists>ts' s'. writer_run n env r (Writing data) ts = Ret (Returned None, ts') \<and>
    normals ts' r = Some (s\<lparr>so_snd := s'\<rparr>) \<and> content (snd_buf s') = [] \<and>
    snd_NXT s' = snd_NXT (so_snd s) + word_of_nat (length (content (snd_buf (so_snd s)) @ data)) \<and>
    transmits (snd_NXT (so_snd s)) (content (snd_buf (so_snd s)) @ data) ts ts'"
  using write_run [of env good content cap r data s ts "Writing data" n] assms
  by (simp add: fits_def steps_left_def done_with_def)

section \<open>Witnesses\<close>

lemma ex_routed: "routed ex_env (ex_host st) (ns_RemoteAddress ex_socket)"
  using ex_stack_ok ex_total_lib_marshals ex_route by (simp add: routed_def ex_socket_def)

lemma ex_sock: "normals (ex_host st) 1 = Some ex_socket"
  by simp


text \<open>2000 bytes in flight, and the window shrunk to 100.\<close>

definition ex_shrunk :: "list_rb NormalSocket" where
  "ex_shrunk = ex_socket\<lparr>so_snd := ex_snd\<lparr>snd_buf := ([1, 2, 3], 65535), snd_NXT := 3001, snd_WND := 100\<rparr>\<rparr>"

definition ex_shrunk_host :: "list_rb TCPStack" where
  "ex_shrunk_host = (ex_host TCP_ESTABLISHED)\<lparr>normals := [1 \<mapsto> ex_shrunk]\<rparr>"

lemma ex_shrunk_ok: "host_ok list_rb_good ex_shrunk_host"
proof -
  have "buffers_ok list_rb_good ex_shrunk"
    by (simp add: buffers_ok_def ex_shrunk_def ex_socket_def ex_rcv_def list_rb_good_def)
  then show ?thesis
    using ex_host_ok [of TCP_ESTABLISHED] quiet_host_ok [of list_rb_good "ex_host TCP_ESTABLISHED" ex_shrunk_host]
    by (simp add: quiet_def ex_shrunk_host_def socks_ok_def)
qed

theorem shrunk_window_wraps_witness:
  "\<exists>ts' s'. writer_step ex_env 1 (Sending []) ex_shrunk_host = Ret (Sending [], ts') \<and> normals ts' 1 = Some s' \<and>
     unat (in_flight (so_snd s')) = 2003 \<and> snd_WND (so_snd ex_shrunk) = 100"
proof -
  have s: "normals ex_shrunk_host 1 = Some ex_shrunk" by (simp add: ex_shrunk_host_def)
  have r: "routed ex_env ex_shrunk_host (ns_RemoteAddress ex_shrunk)"
    using ex_routed [of TCP_ESTABLISHED] by (simp add: routed_def ex_shrunk_host_def ex_shrunk_def)
  obtain ts' s' n where "writer_step ex_env 1 (Sending []) ex_shrunk_host = Ret (Sending [], ts')"
    "normals ts' 1 = Some (ex_shrunk\<lparr>so_snd := s'\<rparr>)" "unat (in_flight s') = unat (in_flight (so_snd ex_shrunk)) + n"
    "n = min (min (2 ^ 16 + unat (snd_WND (so_snd ex_shrunk)) - unat (in_flight (so_snd ex_shrunk))) 1000)
      (length (fst (snd_buf (so_snd ex_shrunk))))"
    using shrunk_window_wraps [OF ex_env_ok ex_shrunk_ok s _ _ _ _ r, of "[]"]
    by (auto simp: ex_shrunk_def ex_socket_def ex_snd_def in_flight_def)
  then show ?thesis
    by (intro exI [of _ ts'] exI [of _ "ex_shrunk\<lparr>so_snd := s'\<rparr>"])
       (simp add: ex_shrunk_def ex_snd_def in_flight_def)
qed

theorem write_completes_witness:
  "\<exists>ts'. writer_run 14 ex_env 1 (Writing [7, 8, 9]) (ex_host TCP_ESTABLISHED) = Ret (Returned None, ts') \<and>
     transmits 1001 [7, 8, 9] (ex_host TCP_ESTABLISHED) ts'"
  using write_completes [OF ex_env_ok ex_host_ok ex_sock ex_routed, of TCP_ESTABLISHED "[7, 8, 9]" 14]
  by (auto simp: ex_socket_def ex_snd_def in_flight_def)

end
