(* ===== verification/TCP_Transfer.thy ===== *)
theory TCP_Transfer
  imports TCP_Window Transitions
begin

text \<open>
  A whole connection: a sending host with the goroutine of its \<open>VWrite\<close>, a network that may lose,
  duplicate, delay and reorder segments, and a receiving host whose application calls \<open>VRead\<close>.
  The sender may also retransmit at any time. Whatever the interleaving, the bytes read are a prefix of the bytes written.
\<close>

section \<open>The two hosts\<close>

text \<open>
  \<open>written\<close> and \<open>delivered\<close> record the arguments of the calls of \<open>VWrite\<close> and the results of \<open>VRead\<close>;
  \<open>net\<close> holds every segment that was handed to IP, from where it may be delivered any number of
  times, or never.
\<close>

record 'rb link =
  sender :: "'rb TCPStack"
  wr :: writer
  written :: "byte list"
  net :: "byte list set"
  receiver :: "'rb TCPStack"
  delivered :: "byte list"

definition at_time :: "Time \<Rightarrow> 'rb tcp_env \<Rightarrow> 'rb tcp_env" where
  "at_time t env = env\<lparr>e_now := t\<rparr>"

definition new_segments :: "'rb TCPStack \<Rightarrow> 'rb TCPStack \<Rightarrow> byte list set" where
  "new_segments ts ts' = (fst \<circ> snd) ` set (drop (length (outbox ts)) (outbox ts'))"

text \<open>The connected sockets: their references and table entries on the two hosts.\<close>

record ends =
  s_ref :: nat
  s_ptr :: entry_ptr
  r_ref :: nat
  r_ptr :: entry_ptr

inductive link_step :: "'rb tcp_env \<Rightarrow> ends \<Rightarrow> 'rb link \<Rightarrow> 'rb link \<Rightarrow> bool" for env e where
  call: "wr l = Returned None \<Longrightarrow> length (written l @ d) < 2 ^ 32 \<Longrightarrow>
    link_step env e l (l\<lparr>wr := Writing d, written := written l @ d\<rparr>)"
| send: "writer_step (at_time t env) (s_ref e) (wr l) (sender l) = Ret (w', ts') \<Longrightarrow>
    link_step env e l (l\<lparr>wr := w', sender := ts', net := net l \<union> new_segments (sender l) ts'\<rparr>)"
| ack: "handleEstablishedPacket (at_time t env) (s_ptr e) h [] (sender l) = Ret ts' \<Longrightarrow>
    link_step env e l (l\<lparr>sender := ts'\<rparr>)"
| resend: "retransmitPacket (at_time t env) (s_ref e) (sender l) = Ret (err, ts') \<Longrightarrow>
    link_step env e l (l\<lparr>sender := ts', net := net l \<union> new_segments (sender l) ts'\<rparr>)"
| deliver: "seg \<in> net l \<Longrightarrow> ParseTCPHeader seg spare = Ret (h, d) \<Longrightarrow>
    handleEstablishedPacket (at_time t env) (r_ptr e) h d (receiver l) = Ret ts' \<Longrightarrow>
    link_step env e l (l\<lparr>receiver := ts'\<rparr>)"
| read: "0 < n \<Longrightarrow> VRead (at_time t env) (r_ref e) n (receiver l) = Ret (bs, None, ts') \<Longrightarrow>
    link_step env e l (l\<lparr>receiver := ts', delivered := delivered l @ bs\<rparr>)"

section \<open>The invariant\<close>

definition sender_ok :: "'rb tcp_env \<Rightarrow> ('rb \<Rightarrow> bool) \<Rightarrow> ('rb \<Rightarrow> byte list) \<Rightarrow> ('rb \<Rightarrow> nat) \<Rightarrow> ends \<Rightarrow> u32 \<Rightarrow> 'rb link \<Rightarrow> bool" where
  "sender_ok env good content cap e base l \<longleftrightarrow> ready env good content cap (s_ptr e) (s_ref e) (sender l) \<and>
     (\<exists>s. normals (sender l) (s_ref e) = Some s \<and> writer_inv content base (written l) (wr l) (so_snd s))"

definition receiver_ok :: "'rb tcp_env \<Rightarrow> ('rb \<Rightarrow> bool) \<Rightarrow> ('rb \<Rightarrow> byte list) \<Rightarrow> ('rb \<Rightarrow> nat) \<Rightarrow> ends \<Rightarrow> u32 \<Rightarrow> 'rb link \<Rightarrow> bool" where
  "receiver_ok env good content cap e base l \<longleftrightarrow> ready env good content cap (r_ptr e) (r_ref e) (receiver l) \<and>
     (\<exists>s k. normals (receiver l) (r_ref e) = Some s \<and> rx_ok base (written l) k (so_rcv s) \<and>
        delivered l @ content (rcv_buf (so_rcv s)) = take k (written l))"

definition net_ok :: "u32 \<Rightarrow> 'rb link \<Rightarrow> bool" where
  "net_ok base l \<longleftrightarrow> (\<forall>seg \<in> net l. \<exists>h d. seg = serializeTCPPacket h d \<and> good_segment base (written l) h d)"

definition link_ok :: "'rb tcp_env \<Rightarrow> ('rb \<Rightarrow> bool) \<Rightarrow> ('rb \<Rightarrow> byte list) \<Rightarrow> ('rb \<Rightarrow> nat) \<Rightarrow> ends \<Rightarrow> u32 \<Rightarrow> 'rb link \<Rightarrow> bool" where
  "link_ok env good content cap e base l \<longleftrightarrow> length (written l) < 2 ^ 32 \<and> net_ok base l \<and>
     sender_ok env good content cap e base l \<and> receiver_ok env good content cap e base l"

text \<open>A fresh connection: the receiver expects the sequence number the sender will use next.\<close>

definition link_init :: "'rb tcp_env \<Rightarrow> ('rb \<Rightarrow> bool) \<Rightarrow> ('rb \<Rightarrow> byte list) \<Rightarrow> ('rb \<Rightarrow> nat) \<Rightarrow> ends \<Rightarrow> u32 \<Rightarrow> 'rb link \<Rightarrow> bool" where
  "link_init env good content cap e base l \<longleftrightarrow>
     ready env good content cap (s_ptr e) (s_ref e) (sender l) \<and> ready env good content cap (r_ptr e) (r_ref e) (receiver l) \<and>
     wr l = Returned None \<and> written l = [] \<and> net l = {} \<and> delivered l = [] \<and>
     (\<exists>s. normals (sender l) (s_ref e) = Some s \<and> snd_NXT (so_snd s) = base \<and> inFlightPackets (so_snd s) = [] \<and> content (snd_buf (so_snd s)) = []) \<and>
     (\<exists>s. normals (receiver l) (r_ref e) = Some s \<and> rcv_NXT (so_rcv s) = base \<and> earlyData (so_rcv s) = [] \<and>
        content (rcv_buf (so_rcv s)) = [])"

section \<open>Its parts\<close>

lemma at_time_simps [simp]: "e_lib (at_time t env) = e_lib env" "e_rb (at_time t env) = e_rb env"
  "growing (at_time t env) = growing env"
  "env_ok (at_time t env) good content cap = env_ok env good content cap"
  "ready (at_time t env) good content cap p r ts = ready env good content cap p r ts"
  by (simp_all add: at_time_def env_ok_def growing_def ready_def)

lemma segment_of_append: "segment_of base W q d \<Longrightarrow> segment_of base (W @ x) q d"
  unfolding segment_of_def by (elim exE conjE, intro exI conjI) auto

lemma rx_ok_append: "rx_ok base W k s \<Longrightarrow> rx_ok base (W @ x) k s"
  by (auto simp: rx_ok_def segment_of_append)

lemma good_segment_append: "good_segment base W h d \<Longrightarrow> good_segment base (W @ x) h d"
  by (simp add: good_segment_def segment_of_append)

lemma in_flight_append: "in_flight_ok base W ps \<Longrightarrow> in_flight_ok base (W @ x) ps"
  by (simp add: in_flight_ok_def segment_of_append)

lemma init_ok: "link_init env good content cap e base l \<Longrightarrow> link_ok env good content cap e base l"
  by (auto simp: link_init_def link_ok_def net_ok_def sender_ok_def receiver_ok_def writer_inv_def rx_ok_def)

lemma call_ok:
  assumes "link_ok env good content cap e base l" "wr l = Returned None" "length (written l @ d) < 2 ^ 32"
  shows "link_ok env good content cap e base (l\<lparr>wr := Writing d, written := written l @ d\<rparr>)"
proof -
  obtain s where s: "normals (sender l) (s_ref e) = Some s" "writer_inv content base (written l) (Returned None) (so_snd s)"
    using assms(1,2) by (auto simp: link_ok_def sender_ok_def)
  have "writer_inv content base (written l @ d) (Writing d) (so_snd s)"
    using s(2) by (auto simp: writer_inv_def in_flight_append)
  then have "sender_ok env good content cap e base (l\<lparr>wr := Writing d, written := written l @ d\<rparr>)"
    using assms(1) s(1) by (simp add: link_ok_def sender_ok_def)
  moreover obtain u k where u: "normals (receiver l) (r_ref e) = Some u" "rx_ok base (written l) k (so_rcv u)"
    "delivered l @ content (rcv_buf (so_rcv u)) = take k (written l)"
    using assms(1) by (auto simp: link_ok_def receiver_ok_def)
  moreover have "take k (written l @ d) = take k (written l)" using u(2) by (simp add: rx_ok_def)
  moreover have "net_ok base (l\<lparr>wr := Writing d, written := written l @ d\<rparr>)"
    using assms(1) good_segment_append [of base "written l" _ _ d] unfolding link_ok_def net_ok_def by simp blast
  ultimately show ?thesis
    using assms(1,3) rx_ok_append [OF u(2), of d] unfolding link_ok_def receiver_ok_def by auto
qed

lemma sentE: "sent ds P ts ts' \<Longrightarrow> outbox ts' = outbox ts \<or>
  (\<exists>d dst h eff. outbox ts' = outbox ts @ [(dst, serializeTCPPacket h d, eff)] \<and> P h d)"
  by (auto simp: sent_def split: list.splits)

lemma new_segments_sent:
  "sent ds P ts ts' \<Longrightarrow> seg \<in> new_segments ts ts' \<Longrightarrow> \<exists>h d. seg = serializeTCPPacket h d \<and> P h d"
  by (drule sentE) (auto simp: new_segments_def, blast)

lemma sender_step_ok:
  assumes ok: "link_ok env good content cap e base l"
    and step: "\<And>s. normals (sender l) (s_ref e) = Some s \<Longrightarrow> writer_inv content base (written l) (wr l) (so_snd s) \<Longrightarrow>
      env_ok (at_time t env) good content cap \<Longrightarrow> host_ok good (sender l) \<Longrightarrow>
      step_ok good content base (written l) (s_ref e) s (sender l) w' ts'"
  shows "link_ok env good content cap e base (l\<lparr>wr := w', sender := ts', net := net l \<union> new_segments (sender l) ts'\<rparr>)"
proof -
  obtain s where s: "normals (sender l) (s_ref e) = Some s" "writer_inv content base (written l) (wr l) (so_snd s)"
    and r: "ready env good content cap (s_ptr e) (s_ref e) (sender l)"
    using ok by (auto simp: link_ok_def sender_ok_def)
  have "step_ok good content base (written l) (s_ref e) s (sender l) w' ts'"
    by (rule step [OF s _ readyD(2) [OF r]]) (use readyD(1) [OF r] in simp)
  then obtain s' ds where s': "normals ts' (s_ref e) = Some (s\<lparr>so_snd := s'\<rparr>)" "quiet good (sender l) ts'"
    "writer_inv content base (written l) w' s'" "sent ds (good_segment base (written l)) (sender l) ts'"
    unfolding step_ok_def by blast
  have "ready env good content cap (s_ptr e) (s_ref e) ts'" by (rule ready_quiet [OF r s'(2)])
  then show ?thesis
    using ok s' new_segments_sent [OF s'(4)]
    by (auto simp: link_ok_def net_ok_def sender_ok_def receiver_ok_def)
qed

lemma write_ok:
  "link_ok env good content cap e base l \<Longrightarrow> writer_step (at_time t env) (s_ref e) (wr l) (sender l) = Ret (w', ts') \<Longrightarrow>
   link_ok env good content cap e base (l\<lparr>wr := w', sender := ts', net := net l \<union> new_segments (sender l) ts'\<rparr>)"
  by (rule sender_step_ok [where t = t]) (assumption, rule writer_step_ok)

lemma accept_ack_simps [simp]: "snd_NXT (accept_ack t h s) = snd_NXT s"
  by (simp add: accept_ack_def rearm_def reset_rto_def stop_rto_def)

lemma accept_ack_flight:
  "in_flight_ok base W (inFlightPackets s) \<Longrightarrow> in_flight_ok base W (inFlightPackets (accept_ack t h s))"
  by (simp add: accept_ack_def rearm_def reset_rto_def stop_rto_def)

lemma update_socket_Ret: "normals ts r = Some s \<Longrightarrow> update_socket r f ts = Ret (put_socket r (f s) ts)"
  by (simp add: update_socket_def socket_of_def)

lemma ack_ok:
  assumes ok: "link_ok env good content cap e base l"
    and run: "handleEstablishedPacket (at_time t env) (s_ptr e) h [] (sender l) = Ret ts'"
  shows "link_ok env good content cap e base (l\<lparr>sender := ts'\<rparr>)"
proof -
  obtain s where s: "normals (sender l) (s_ref e) = Some s" "writer_inv content base (written l) (wr l) (so_snd s)"
    and r: "ready env good content cap (s_ptr e) (s_ref e) (sender l)"
    using ok by (auto simp: link_ok_def sender_ok_def)
  have r': "ready (at_time t env) good content cap (s_ptr e) (s_ref e) (sender l)" using r by simp
  have "quiet good (sender l) ts'" using handleEstablishedPacket_safe [OF r', of h "[]"] run by simp
  then have "ready env good content cap (s_ptr e) (s_ref e) ts'" by (rule ready_quiet [OF r])
  moreover have "\<exists>s'. normals ts' (s_ref e) = Some s' \<and> writer_inv content base (written l) (wr l) (so_snd s')"
    using run s readyD(5) [OF r']
    by (auto simp: handleEstablishedPacket_def update_socket_Ret put_socket_def writer_inv_def accept_ack_flight)
  ultimately show ?thesis using ok by (simp add: link_ok_def net_ok_def sender_ok_def receiver_ok_def)
qed

text \<open>A retransmission sends a packet in flight once more and keeps all of them.\<close>

lemma retransmit_stream:
  assumes env: "env_ok env good content cap" and ok: "host_ok good ts" and s: "normals ts r = Some s"
    and inv: "writer_inv content base W w (so_snd s)" and run: "retransmitPacket env r ts = Ret (err, ts')"
  shows "step_ok good content base W r s ts w ts'"
proof (cases "getFirstUnackedPacket (so_snd s) = None \<or> RTO_MAX_RETRIES < retransmissions (so_snd s)")
  case True
  then have "ts' = ts" using run s by (auto simp: retransmitPacket_def socket_of_def split: option.splits)
  then show ?thesis using step_okI [OF same_sock [OF s] quiet_refl inv, of "[]"] by simp
next
  case False
  then obtain p where p: "getFirstUnackedPacket (so_snd s) = Some p" by auto
  let ?h = "\<lparr>SourcePort = ns_LocalPort s, DestPort = ns_RemotePort s, SeqNum = if_SeqNum p, AckNum = rcv_NXT (so_rcv s),
    DataOffset = 5, TFlags = if_flags p, WindowSize = windowFlags p, TChecksum = 0, UrgentPtr = 0\<rparr>"
  let ?u = "reset_rto (e_now env) (so_snd s\<lparr>inFlightPackets :=
      filter (\<lambda>q. if_SeqNum q \<noteq> if_SeqNum p) (inFlightPackets (so_snd s)) @ [\<lparr>if_data = if_data p, if_SeqNum = if_SeqNum p,
        if_Length = 0, timeSent = e_now env, if_flags = if_flags p, windowFlags = windowFlags p\<rparr>],
    retransmissions := retransmissions (so_snd s) + 1, calculatedRTO := double_rto (calculatedRTO (so_snd s))\<rparr>)"
  obtain e eff where send: "sendPacket env (ns_RemoteAddress s) (serializeTCPPacket ?h (if_data p)) ts =
      Ret (e, ts\<lparr>outbox := outbox ts @ [(ns_RemoteAddress s, serializeTCPPacket ?h (if_data p), eff)]\<rparr>)"
    using sendPacket_Ret [OF host_okD(4) [OF ok] env_okD(2) [OF env]] by blast
  let ?ts1 = "ts\<lparr>outbox := outbox ts @ [(ns_RemoteAddress s, serializeTCPPacket ?h (if_data p), eff)]\<rparr>"
  have ts': "ts' = (if e = None then put_socket r (s\<lparr>so_snd := ?u\<rparr>) ?ts1 else ?ts1)"
    using run s p False send by (auto simp: retransmitPacket_def socket_of_def Let_def)
  have "p \<in> set (inFlightPackets (so_snd s))" using find_in_set p by (fastforce simp: getFirstUnackedPacket_def)
  then have seg: "segment_of base W (if_SeqNum p) (if_data p)" "if_data p \<noteq> []" "length (if_data p) \<le> MAX_TCP_PAYLOAD"
    using inv by (auto simp: writer_inv_def in_flight_ok_def)
  have q: "quiet good ts ts'" using retransmit_safe [OF env ok, of r] s run by (simp add: domI)
  have out: "sent [if_data p] (good_segment base W) ts ts'"
    by (rule sentI [where h = ?h and eff = eff and dst = "ns_RemoteAddress s"])
       (use seg in \<open>simp_all add: ts' good_segment_def put_socket_def\<close>)
  have "writer_inv content base W w ?u"
    using inv seg by (simp add: writer_inv_def reset_rto_def) (simp add: in_flight_ok_def)
  moreover have "normals ts' r = Some (s\<lparr>so_snd := if e = None then ?u else so_snd s\<rparr>)"
    using s by (simp add: ts' put_socket_def)
  ultimately show ?thesis by (intro step_okI [OF _ q _ out]) (assumption, simp add: inv)
qed

lemma resend_ok:
  "link_ok env good content cap e base l \<Longrightarrow> retransmitPacket (at_time t env) (s_ref e) (sender l) = Ret (err, ts') \<Longrightarrow>
   link_ok env good content cap e base (l\<lparr>sender := ts', net := net l \<union> new_segments (sender l) ts'\<rparr>)"
  using sender_step_ok [of env good content cap e base l t "wr l" ts'] retransmit_stream [of "at_time t env" good content cap "sender l" "s_ref e"]
  by simp

lemma established_stream:
  assumes r: "ready env good content cap p r ts" and s: "normals ts r = Some s" and W: "length W < 2 ^ 32"
    and rx: "rx_ok base W k (so_rcv s)" and d: "segment_of base W (SeqNum h) d" "d \<noteq> []"
    and run: "handleEstablishedPacket env p h d ts = Ret ts'"
  shows "quiet good ts ts' \<and> (\<exists>s' k'. normals ts' r = Some s' \<and> advances good content cap base W k k' (so_rcv s) (so_rcv s') \<and>
    (SeqNum h = rcv_NXT (so_rcv s) \<longrightarrow> k + length d \<le> k'))"
proof -
  let ?s1 = "s\<lparr>so_snd := (so_snd s)\<lparr>snd_WND := WindowSize h\<rparr>\<rparr>" and ?f = "\<lambda>s. s\<lparr>so_snd := accept_ack (e_now env) h (so_snd s)\<rparr>"
  let ?ts1 = "put_socket r ?s1 ts"
  have q1: "quiet good ts ?ts1"
    by (rule put_socket_quiet [OF readyD(4) [OF r]]) (use sock_good [OF readyD(2) [OF r] s] in \<open>simp add: buffers_ok_def\<close>)
  obtain ts2 where ts2: "handleData env p h d ?ts1 = Ret ts2" "update_socket r ?f ts2 = Ret ts'"
    using run d(2) s readyD(5) [OF r] by (auto simp: handleEstablishedPacket_def update_socket_Ret bindG_eq_Ret)
  note r1 = ready_quiet [OF r q1]
  have "safe (\<lambda>ts'. \<exists>s' k'. acked_as env r s' ?ts1 ts' \<and> advances good content cap base W k k' (so_rcv ?s1) (so_rcv s') \<and>
      (SeqNum h = rcv_NXT (so_rcv ?s1) \<longrightarrow> k + length d \<le> k' \<and>
         findNextSequence (earlyData (so_rcv s')) (rcv_NXT (so_rcv s')) = None)) (handleData env p h d ?ts1)"
    by (rule handleData_stream [OF r1 _ W _ d(1)]) (use rx in \<open>simp_all add: put_socket_def\<close>)
  then obtain s2 k' where s2: "normals ts2 r = Some s2" "advances good content cap base W k k' (so_rcv s) (so_rcv s2)"
    "SeqNum h = rcv_NXT (so_rcv s) \<longrightarrow> k + length d \<le> k'"
    using ts2(1) by (auto simp: acked_as_def)
  have "quiet good ts ts'" using handleEstablishedPacket_safe [OF r, of h d] run by simp
  moreover have "normals ts' r = Some (?f s2)" using ts2(2) s2(1) by (auto simp: update_socket_Ret put_socket_def)
  ultimately show ?thesis using s2(2,3) by (intro conjI exI [of _ "?f s2"] exI [of _ k']) simp_all
qed

lemma deliver_ok:
  assumes ok: "link_ok env good content cap e base l" and seg: "seg \<in> net l" "ParseTCPHeader seg spare = Ret (h, d)"
    and run: "handleEstablishedPacket (at_time t env) (r_ptr e) h d (receiver l) = Ret ts'"
  shows "link_ok env good content cap e base (l\<lparr>receiver := ts'\<rparr>)"
proof -
  obtain h0 d0 where "seg = serializeTCPPacket h0 d0" "good_segment base (written l) h0 d0"
    using ok seg(1) by (auto simp: link_ok_def net_ok_def)
  then have hd: "h = h0\<lparr>TChecksum := 0\<rparr>" "d = d0" "segment_of base (written l) (SeqNum h) d" "d \<noteq> []"
    using seg(2) parse_serialize [of d0 h0 spare] by (auto simp: good_segment_def MAX_TCP_PAYLOAD_def)
  obtain s k where s: "normals (receiver l) (r_ref e) = Some s" "rx_ok base (written l) k (so_rcv s)"
    "delivered l @ content (rcv_buf (so_rcv s)) = take k (written l)"
    and r: "ready (at_time t env) good content cap (r_ptr e) (r_ref e) (receiver l)"
    using ok by (auto simp: link_ok_def receiver_ok_def)
  have W: "length (written l) < 2 ^ 32" using ok by (simp add: link_ok_def)
  obtain s' k' where s': "quiet good (receiver l) ts'" "normals ts' (r_ref e) = Some s'"
    "advances good content cap base (written l) k k' (so_rcv s) (so_rcv s')"
    using established_stream [OF r s(1) W s(2) hd(3,4) run] by blast
  have "delivered l @ content (rcv_buf (so_rcv s')) = take k (written l) @ take (k' - k) (drop k (written l))"
    using s(3) s'(3) by (simp add: advances_def)
  also have "\<dots> = take k' (written l)"
    using take_drop_join [of 0 k k' "written l"] s'(3) by (simp add: advances_def)
  finally have "delivered l @ content (rcv_buf (so_rcv s')) = take k' (written l)" .
  moreover have "ready env good content cap (r_ptr e) (r_ref e) ts'" using ready_quiet [OF r s'(1)] by simp
  ultimately show ?thesis
    using ok s' by (auto simp: link_ok_def net_ok_def sender_ok_def receiver_ok_def advances_def)
qed

lemma read_ok:
  assumes ok: "link_ok env good content cap e base l" and n: "0 < n"
    and run: "VRead (at_time t env) (r_ref e) n (receiver l) = Ret (bs, None, ts')"
  shows "link_ok env good content cap e base (l\<lparr>receiver := ts', delivered := delivered l @ bs\<rparr>)"
proof -
  obtain s k where s: "normals (receiver l) (r_ref e) = Some s" "rx_ok base (written l) k (so_rcv s)"
    "delivered l @ content (rcv_buf (so_rcv s)) = take k (written l)"
    and r: "ready (at_time t env) good content cap (r_ptr e) (r_ref e) (receiver l)"
    using ok by (auto simp: link_ok_def receiver_ok_def)
  let ?b = "rcv_buf (so_rcv s)"
  have q: "quiet good (receiver l) ts'" by (rule VRead_Ret [OF readyD(1,2) [OF r] run])
  have g: "good ?b" using sock_good [OF readyD(2) [OF r] s(1)] by (simp add: buffers_ok_def)
  obtain buf where rd: "rb_Read (e_rb env) ?b n = Ret (bs, None, buf)"
    and ts': "ts' = put_socket (r_ref e) (s\<lparr>so_rcv := (so_rcv s)\<lparr>rcv_buf := buf, rcv_WND := word_of_nat (rb_Free (e_rb env) buf)\<rparr>\<rparr>) (receiver l)"
    using run s(1) by (auto simp: VRead_def socket_of_def bindG_eq_Ret Let_def split: option.splits if_splits)
  have "content ?b = bs @ content buf"
    using read_laws [OF readyD(1) [OF r] g n] rd by (auto split: if_splits)
  then have "(delivered l @ bs) @ content buf = take k (written l)" using s(3) by simp
  moreover have "ready env good content cap (r_ptr e) (r_ref e) ts'" using ready_quiet [OF r q] by simp
  ultimately show ?thesis
    using ok s(2) by (simp add: link_ok_def net_ok_def sender_ok_def receiver_ok_def ts' put_socket_def)
       (rule exI [of _ k], simp add: rx_ok_def)
qed

interpretation link: invariant_system "link_init env good content cap e base" "link_step env e" "link_ok env good content cap e base"
  for env :: "'rb tcp_env" and good content cap e base
proof
  show "link_init env good content cap e base l \<Longrightarrow> link_ok env good content cap e base l" for l by (rule init_ok)
  show "link_ok env good content cap e base l \<Longrightarrow> link_step env e l l' \<Longrightarrow> link_ok env good content cap e base l'" for l l'
    by (erule link_step.cases) (simp_all only: call_ok write_ok ack_ok resend_ok deliver_ok read_ok)
qed

section \<open>The property\<close>

text \<open>
  C33. Reliable, ordered delivery. In every reachable state of a connection, whatever the network
  lost, duplicated, delayed or reordered, whenever packets are retransmitted and however the goroutines interleaved, the bytes the
  application has read are a prefix of the bytes written on the other side, and so are these
  together with the bytes that wait in the receive buffer.
\<close>

theorem delivered_is_prefix:
  assumes "reach (link_init env good content cap e base) (link_step env e) l"
  shows "\<exists>s k. normals (receiver l) (r_ref e) = Some s \<and>
    delivered l = take (length (delivered l)) (written l) \<and>
    delivered l @ content (rcv_buf (so_rcv s)) = take k (written l) \<and> rcv_NXT (so_rcv s) = base + word_of_nat k"
proof -
  have "link_ok env good content cap e base l" by (rule link.reach_inv [OF assms])
  then obtain s k where s: "normals (receiver l) (r_ref e) = Some s" "rx_ok base (written l) k (so_rcv s)"
    "delivered l @ content (rcv_buf (so_rcv s)) = take k (written l)"
    by (auto simp: link_ok_def receiver_ok_def)
  have "length (delivered l) \<le> k" using arg_cong [OF s(3), of length] by simp
  then have "delivered l = take (length (delivered l)) (written l)"
    using arg_cong [OF s(3), of "take (length (delivered l))"] by (simp add: min_absorb1)
  with s show ?thesis by (intro exI [of _ s] exI [of _ k]) (simp add: rx_ok_def)
qed

section \<open>A run\<close>

text \<open>Two bytes written, cut into a segment, delivered and read.\<close>

definition ex_ends :: ends where
  "ex_ends = \<lparr>s_ref = 1, s_ptr = (0, 1), r_ref = 1, r_ptr = (0, 1)\<rparr>"

definition ex_rx_socket :: "list_rb NormalSocket" where
  "ex_rx_socket = ex_socket\<lparr>so_rcv := ex_rcv\<lparr>rcv_NXT := 1001\<rparr>\<rparr>"

definition ex_rx_host :: "list_rb TCPStack" where
  "ex_rx_host = (ex_host TCP_ESTABLISHED)\<lparr>normals := [1 \<mapsto> ex_rx_socket]\<rparr>"

definition ex_link :: "list_rb link" where
  "ex_link = \<lparr>sender = ex_host TCP_ESTABLISHED, wr = Returned None, written = [], net = {}, receiver = ex_rx_host, delivered = []\<rparr>"

lemma ex_link_init: "link_init ex_env list_rb_good fst snd ex_ends 1001 ex_link"
proof -
  have "buffers_ok list_rb_good ex_rx_socket"
    by (simp add: buffers_ok_def ex_rx_socket_def ex_socket_def ex_rcv_def ex_snd_def list_rb_good_def)
  then have "host_ok list_rb_good ex_rx_host"
    using ex_host_ok [of TCP_ESTABLISHED] quiet_host_ok [of list_rb_good "ex_host TCP_ESTABLISHED" ex_rx_host]
    by (simp add: quiet_def ex_rx_host_def socks_ok_def)
  then show ?thesis
    using ex_env_ok ex_host_ok [of TCP_ESTABLISHED]
    by (simp add: link_init_def ex_link_def ex_ends_def ready_def valid_def deref_def ex_rx_host_def)
       (simp add: ex_conn_def ex_rx_socket_def ex_socket_def ex_snd_def ex_rcv_def)
qed

lemma established_returns:
  assumes r: "ready env good content cap p r ts" and s: "normals ts r = Some s" "SeqNum h = rcv_NXT (so_rcv s)" and d: "d \<noteq> []"
    and room: "length (content (rcv_buf (so_rcv s))) + length d + waiting (earlyData (so_rcv s)) \<le> cap (rcv_buf (so_rcv s))"
  shows "\<exists>ts'. handleEstablishedPacket env p h d ts = Ret ts'"
proof -
  let ?s1 = "s\<lparr>so_snd := (so_snd s)\<lparr>snd_WND := WindowSize h\<rparr>\<rparr>"
  let ?ts1 = "put_socket r ?s1 ts"
  have q1: "quiet good ts ?ts1"
    by (rule put_socket_quiet [OF readyD(4) [OF r]]) (use sock_good [OF readyD(2) [OF r] s(1)] in \<open>simp add: buffers_ok_def\<close>)
  have "returns (handleData env p h d ?ts1)"
    by (rule in_order_returns [OF ready_quiet [OF r q1], of ?s1]) (use s room in \<open>simp_all add: put_socket_def\<close>)
  then have "handleEstablishedPacket env p h d ts \<noteq> Block"
    using d s readyD(5) [OF r]
    by (auto simp: handleEstablishedPacket_def update_socket_Ret bindG_eq_Block elim!: returnsE)
  moreover have "handleEstablishedPacket env p h d ts \<noteq> Panic"
    by (rule safe_not_Panic [OF handleEstablishedPacket_safe [OF r]])
  ultimately show ?thesis by (cases "handleEstablishedPacket env p h d ts") auto
qed

lemma ex_link_run:
  "\<exists>l. reach (link_init ex_env list_rb_good fst snd ex_ends 1001) (link_step ex_env ex_ends) l \<and> written l = [7, 8] \<and>
     (\<exists>s. normals (receiver l) 1 = Some s \<and> fst (rcv_buf (so_rcv s)) = [7, 8])"
proof -
  let ?R = "reach (link_init ex_env list_rb_good fst snd ex_ends 1001) (link_step ex_env ex_ends)"
  let ?env = "at_time 0 ex_env" and ?h0 = "ex_host TCP_ESTABLISHED"
  have env: "env_ok ?env list_rb_good fst snd" using ex_env_ok by simp
  have ok0: "host_ok list_rb_good ?h0" by (rule ex_host_ok) simp
  let ?l1 = "ex_link\<lparr>wr := Writing [7, 8], written := [7, 8]\<rparr>"
  have R1: "?R ?l1"
    by (rule reach_step [OF reach_init [where init = "link_init ex_env list_rb_good fst snd ex_ends 1001", OF ex_link_init]])
       (use link_step.call [of ex_link "[7, 8]" ex_env ex_ends] in \<open>simp add: ex_link_def\<close>)
  obtain ts1 b where fill: "fill_buffer ?env 1 [7, 8] ?h0 = Ret (Sending [], ts1)"
    "ts1 = put_socket 1 (ex_socket\<lparr>so_snd := (so_snd ex_socket)\<lparr>snd_buf := b\<rparr>\<rparr>) ?h0" "quiet list_rb_good ?h0 ts1" "fst b = [7, 8]"
    using fill_buffer_step [OF env ok0 ex_sock, of "[7, 8]"] by (auto simp: ex_socket_def ex_snd_def)
  let ?s1 = "ex_socket\<lparr>so_snd := (so_snd ex_socket)\<lparr>snd_buf := b\<rparr>\<rparr>"
  let ?l2 = "?l1\<lparr>wr := Sending [], sender := ts1\<rparr>"
  have "new_segments ?h0 ts1 = {}" by (simp add: new_segments_def fill(2) put_socket_def)
  then have R2: "?R ?l2"
    by (intro reach_step [OF R1])
       (use link_step.send [of 0 ex_env ex_ends ?l1 "Sending []" ts1] fill(1) in \<open>simp add: ex_link_def ex_ends_def\<close>)
  have ok1: "host_ok list_rb_good ts1" by (rule quiet_host_ok [OF fill(3) ok0])
  have s1: "normals ts1 1 = Some ?s1" by (simp add: fill(2) put_socket_def)
  have w: "freeWindowSpace (so_snd ?s1) \<noteq> 0" "0 < snd_WND (so_snd ?s1)" "next_cut fst (so_snd ?s1) = [7, 8]"
    by (simp_all add: freeWindowSpace_def ex_socket_def ex_snd_def next_cut_def MAX_TCP_PAYLOAD_def fill(4))
  have "routed ?env ts1 (ns_RemoteAddress ?s1)"
    using ex_routed [of TCP_ESTABLISHED] by (simp add: routed_def fill(2) put_socket_def)
  moreover obtain w2 ts2 s2 where seg2: "send_segment ?env 1 ?s1 [] ts1 = Ret (w2, ts2)"
    "segment_sent list_rb_good fst snd ?env 1 ?s1 [] ts1 w2 ts2 s2"
    using send_segment_step [OF env ok1 s1 _ w(1), of "[]"] fill(4) by auto
  moreover have "snd_NXT (so_snd ?s1) = 1001" by (simp add: ex_socket_def ex_snd_def)
  ultimately have send: "send_segment ?env 1 ?s1 [] ts1 = Ret (Sending [], ts2)"
    "sent [[7, 8]] (\<lambda>h d. SeqNum h = 1001 \<and> DataOffset h = 5) ts1 ts2"
    unfolding segment_sent_def Let_def w(3) by simp_all
  obtain dst h eff where out: "outbox ts2 = outbox ts1 @ [(dst, serializeTCPPacket h [7, 8], eff)]" "SeqNum h = 1001" "DataOffset h = 5"
    using send(2) by (auto simp: sent_def)
  let ?seg = "serializeTCPPacket h [7, 8]"
  let ?l3 = "?l2\<lparr>wr := Sending [], sender := ts2, net := {?seg}\<rparr>"
  have "try_send ?env 1 [] ts1 = Ret (Sending [], ts2)"
    using try_send_eq [OF env ok1 s1 _ w(2), of "[]"] w(1) fill(4) send(1) by simp
  moreover have "new_segments ts1 ts2 = {?seg}" by (simp add: new_segments_def out(1))
  ultimately have R3: "?R ?l3"
    by (intro reach_step [OF R2])
       (use link_step.send [of 0 ex_env ex_ends ?l2 "Sending []" ts2] in \<open>simp add: ex_link_def ex_ends_def\<close>)
  let ?h = "h\<lparr>TChecksum := 0\<rparr>"
  have parse: "ParseTCPHeader ?seg [] = Ret (?h, [7, 8])" by (rule parse_serialize) (simp_all add: out(3))
  have r: "ready ?env list_rb_good fst snd (0, 1) 1 ex_rx_host"
    using ex_link_init by (simp add: link_init_def ex_link_def ex_ends_def)
  have s: "normals ex_rx_host 1 = Some ex_rx_socket" by (simp add: ex_rx_host_def)
  have q: "SeqNum ?h = rcv_NXT (so_rcv ex_rx_socket)" using out(2) by (simp add: ex_rx_socket_def ex_rcv_def)
  obtain ts3 where ts3: "handleEstablishedPacket ?env (0, 1) ?h [7, 8] ex_rx_host = Ret ts3"
    using established_returns [OF r s q, of "[7, 8]"] by (auto simp: ex_rx_socket_def ex_rcv_def waiting_def)
  have seg: "segment_of 1001 [7, 8] (SeqNum ?h) [7, 8]"
    unfolding segment_of_def using out(2) by (intro exI [of _ 0]) simp
  have rx: "rx_ok 1001 [7, 8] 0 (so_rcv ex_rx_socket)" by (simp add: rx_ok_def ex_rx_socket_def ex_rcv_def)
  obtain s3 k where s3: "normals ts3 1 = Some s3" "advances list_rb_good fst snd 1001 [7, 8] 0 k (so_rcv ex_rx_socket) (so_rcv s3)" "Suc (Suc 0) \<le> k"
    using established_stream [OF r s _ rx seg _ ts3] q by auto
  then have "fst (rcv_buf (so_rcv s3)) = [7, 8]" by (simp add: advances_def ex_rx_socket_def ex_rcv_def)
  moreover have "?R (?l3\<lparr>receiver := ts3\<rparr>)"
    by (intro reach_step [OF R3])
       (use link_step.deliver [of ?seg ?l3 "[]" ?h "[7, 8]" 0 ex_env ex_ends ts3] parse ts3 in \<open>simp add: ex_link_def ex_ends_def\<close>)
  ultimately show ?thesis using s3(1) by (intro exI [of _ "?l3\<lparr>receiver := ts3\<rparr>"]) simp
qed

theorem delivered_is_prefix_witness:
  "\<exists>l s k. reach (link_init ex_env list_rb_good fst snd ex_ends 1001) (link_step ex_env ex_ends) l \<and>
     normals (receiver l) 1 = Some s \<and> written l = [7, 8] \<and> fst (rcv_buf (so_rcv s)) = [7, 8] \<and>
     delivered l @ [7, 8] = take k [7, 8]"
proof -
  obtain l s where l: "reach (link_init ex_env list_rb_good fst snd ex_ends 1001) (link_step ex_env ex_ends) l"
    "written l = [7, 8]" "normals (receiver l) 1 = Some s" "fst (rcv_buf (so_rcv s)) = [7, 8]"
    using ex_link_run by blast
  with delivered_is_prefix [OF l(1)] show ?thesis
    by (intro exI [of _ l] exI [of _ s]) (auto simp: ex_ends_def)
qed

end
