(* ===== verification/TCP_Host.thy ===== *)
theory TCP_Host
  imports TCP_Transfer
begin

text \<open>
  A whole host as a transition system: every call the application, the network and the goroutines
  can make, in any order, from the state \<open>InitTCPStack\<close> builds. All its reachable states are well
  formed.
\<close>

section \<open>Steps\<close>

text \<open>
  Each step is one call at some time that returns; the arguments are arbitrary. A goroutine in the
  middle of a call is a step from any of its control points.
\<close>

inductive host_step :: "'rb tcp_env \<Rightarrow> 'rb TCPStack \<Rightarrow> 'rb TCPStack \<Rightarrow> bool" for env where
  segment: "HandleTCP (at_time t env) src dst packet spare ts = Ret (err, ts') \<Longrightarrow> host_step env ts ts'"
| connect: "VConnect_start (at_time t env) ra rp ts = Ret (r, entry, err, ts') \<Longrightarrow> host_step env ts ts'"
| connect_end: "VConnect_wait (at_time t env) pick r entry since ts = Ret (err, ts') \<Longrightarrow> host_step env ts ts'"
| listen: "VListen (at_time t env) port ts = (lr, ts') \<Longrightarrow> host_step env ts ts'"
| accept: "VAccept lr ts = Ret (r, ts') \<Longrightarrow> host_step env ts ts'"
| read: "VRead (at_time t env) r n ts = Ret (bs, err, ts') \<Longrightarrow> host_step env ts ts'"
| writing: "writer_step (at_time t env) r w ts = Ret (w', ts') \<Longrightarrow> host_step env ts ts'"
| close: "VClose (at_time t env) r ts = Ret (err, ts') \<Longrightarrow> host_step env ts ts'"
| reset: "sendRST (at_time t env) r ts = Ret (err, ts') \<Longrightarrow> host_step env ts ts'"
| manager: "r \<in> set (managers ts) \<Longrightarrow> manager_tick (at_time t env) r ts = Ret ts' \<Longrightarrow> host_step env ts ts'"
| sleeper: "closer_wakes (at_time t env) i ts = Ret ts' \<Longrightarrow> host_step env ts ts'"
| sending_file: "VSendFile_step (at_time t env) r f ts = Ret (f', ts') \<Longrightarrow> host_step env ts ts'"
| receiving_file: "VReceiveFile_step (at_time t env) we r g ts = Ret (g', ts') \<Longrightarrow> host_step env ts ts'"

section \<open>The invariant\<close>

text \<open>
  Besides being well formed, no reachable table holds an entry in CLOSING or CLOSED: the two sides
  closing at once is not handled, and a closed entry leaves in the same step.
\<close>

definition closing_free :: "'rb TCPStack \<Rightarrow> bool" where
  "closing_free ts \<longleftrightarrow> State ` set (table_entries ts) \<inter> {TCP_CLOSING, TCP_CLOSED} = {}"

definition host_inv :: "'rb tcp_env \<Rightarrow> ('rb \<Rightarrow> bool) \<Rightarrow> ('rb \<Rightarrow> byte list) \<Rightarrow> ('rb \<Rightarrow> nat) \<Rightarrow> 'rb TCPStack \<Rightarrow> bool" where
  "host_inv env good content cap ts \<longleftrightarrow> env_ok env good content cap \<and> host_ok good ts \<and> closing_free ts"

definition host_init :: "'rb tcp_env \<Rightarrow> ('rb \<Rightarrow> bool) \<Rightarrow> ('rb \<Rightarrow> byte list) \<Rightarrow> ('rb \<Rightarrow> nat) \<Rightarrow> 'rb TCPStack \<Rightarrow> bool" where
  "host_init env good content cap ts \<longleftrightarrow> env_ok env good content cap \<and> (\<exists>ipst. stack_ok ipst \<and> ts = InitTCPStack ipst)"

lemma closing_free_quiet: "quiet good ts ts' \<Longrightarrow> closing_free ts' = closing_free ts"
  using quiet_table [of good ts ts'] by (simp add: closing_free_def)

lemma closing_free_subset: "closing_free ts \<Longrightarrow> set (table_entries ts') \<subseteq> set (table_entries ts) \<Longrightarrow> closing_free ts'"
  by (auto simp: closing_free_def)

lemma closing_free_cons:
  "closing_free ts \<Longrightarrow> set (table_entries ts') \<subseteq> insert e (set (table_entries ts)) \<Longrightarrow>
   State e \<notin> {TCP_CLOSING, TCP_CLOSED} \<Longrightarrow> closing_free ts'"
  by (auto simp: closing_free_def)

lemma init_host_inv: "host_init env good content cap ts \<Longrightarrow> host_inv env good content cap ts"
  by (auto simp: host_init_def host_inv_def host_ok_def closing_free_def InitTCPStack_def table_wf_def slice_ok_def
      tbl_def table_entries_def live_def closers_ok_def socks_ok_def refs_ok_def)

lemma fsm_next_open: "fsm_next h st = Some st' \<Longrightarrow> st \<notin> {TCP_CLOSING, TCP_CLOSED} \<Longrightarrow> st' \<notin> {TCP_CLOSING, TCP_CLOSED}"
  by (cases st) (auto simp: on_def split: if_splits)

lemma without_subset: "set (without i xs) \<subseteq> set xs"
  by (auto simp: without_def dest: in_set_takeD in_set_dropD)

lemma fsm_table_open:
  assumes "i < length es" "State ` set es \<inter> {TCP_CLOSING, TCP_CLOSED} = {}"
  shows "State ` set (fsm_table h src r i es) \<inter> {TCP_CLOSING, TCP_CLOSED} = {}"
proof -
  have e: "State (es ! i) \<notin> {TCP_CLOSING, TCP_CLOSED}" using assms(2) nth_mem [OF assms(1)] by blast
  have w: "State ` set (without i es) \<inter> {TCP_CLOSING, TCP_CLOSED} = {}"
    using assms(2) without_subset [of i es] by blast
  have u: "State ` set (es[i := (es ! i)\<lparr>State := st\<rparr>]) \<inter> {TCP_CLOSING, TCP_CLOSED} = {}"
    if "st \<notin> {TCP_CLOSING, TCP_CLOSED}" for st
    using assms(2) that set_update_subset_insert [of es i "(es ! i)\<lparr>State := st\<rparr>"] by auto
  show ?thesis
    using assms(2) w u fsm_next_open [OF _ e]
    by (auto simp: fsm_table_def child_entry_def split: option.split)
qed

section \<open>The writer and the file transfers\<close>

lemma start_probe_quiet:
  assumes env: "env_ok env good content cap" and ok: "host_ok good ts" and s: "normals ts r = Some s"
    and run: "start_probe env r s rest ts = Ret (w', ts')"
  shows "quiet good ts ts'"
proof -
  have g: "good (snd_buf (so_snd s))" using sock_good [OF ok s] by (simp add: buffers_ok_def)
  obtain d err b where "rb_TryRead (e_rb env) (snd_buf (so_snd s)) 1 = (d, err, b)" "good b"
    using TryRead_law [OF env g] by blast
  then show ?thesis using run put_send_facts(1) [OF ok s, of _ b] by (auto simp: start_probe_def)
qed

lemma writer_quiet:
  assumes env: "env_ok env good content cap" and ok: "host_ok good ts" and run: "writer_step env r w ts = Ret (w', ts')"
  shows "quiet good ts ts'"
proof (cases w)
  case (Writing d)
  show ?thesis
  proof (cases "d = []")
    case True
    then show ?thesis using run Writing by (simp add: fill_buffer_def)
  next
    case False
    then obtain s where "normals ts r = Some s"
      using run Writing by (auto simp: fill_buffer_def socket_of_def split: option.splits)
    from fill_buffer_step [OF env ok this False] run Writing show ?thesis by auto
  qed
next
  case (Sending d)
  obtain s where s: "normals ts r = Some s"
    using run Sending by (auto simp: try_send_def socket_of_def split: option.splits)
  have "good (snd_buf (so_snd s))" using sock_good [OF ok s] by (simp add: buffers_ok_def)
  note len = buffer_laws(1) [OF env this]
  show ?thesis
  proof (cases "content (snd_buf (so_snd s)) = []")
    case True
    then show ?thesis using run Sending try_send_empty [OF env ok s True, of d] by simp
  next
    case c: False
    show ?thesis
    proof (cases "0 < snd_WND (so_snd s)")
      case True
      show ?thesis
      proof (cases "freeWindowSpace (so_snd s) = 0")
        case False
        obtain w2 ts2 s2 where "send_segment env r s d ts = Ret (w2, ts2)" "segment_sent good content cap env r s d ts w2 ts2 s2"
          using send_segment_step [OF env ok s c False] by blast
        then show ?thesis using run Sending try_send_eq [OF env ok s c True, of d] False by (simp add: segment_sent_def Let_def)
      qed (use run Sending try_send_eq [OF env ok s c True, of d] in simp)
    next
      case False
      have "start_probe env r s d ts = Ret (w', ts')"
        using run Sending s c len False by (simp add: try_send_def socket_of_def)
      then show ?thesis by (rule start_probe_quiet [OF env ok s])
    qed
  qed
next
  case (Probing d b n)
  obtain s where s: "normals ts r = Some s"
    using run Probing by (auto simp: probe_def socket_of_def split: option.splits)
  obtain err eff where send: "sendPacket env (ns_RemoteAddress s) (serializeTCPPacket (data_header env s) b) ts =
      Ret (err, ts\<lparr>outbox := outbox ts @ [(ns_RemoteAddress s, serializeTCPPacket (data_header env s) b, eff)]\<rparr>)"
    using sendPacket_Ret [OF host_okD(4) [OF ok] env_okD(2) [OF env]] by blast
  have "quiet good ts (put_socket r (s\<lparr>so_snd := (so_snd s)\<lparr>snd_NXT := snd_NXT (so_snd s) + 1\<rparr>\<rparr>) ts)"
    by (rule put_send_facts(1) [OF ok s refl]) (use sock_good [OF ok s] in \<open>simp add: buffers_ok_def\<close>)
  then show ?thesis using run Probing s send by (auto simp: probe_def socket_of_def split: if_splits)
qed (use run in simp)

section \<open>Every step keeps it\<close>

lemma at_time_host_inv [simp]: "host_inv (at_time t env) good content cap ts = host_inv env good content cap ts"
  by (simp add: host_inv_def)

lemma host_inv_quiet: "host_inv env good content cap ts \<Longrightarrow> quiet good ts ts' \<Longrightarrow> host_inv env good content cap ts'"
  using quiet_host_ok closing_free_quiet unfolding host_inv_def by blast

lemma segment_inv:
  assumes "host_inv env good content cap ts" "HandleTCP env src dst packet spare ts = Ret (err, ts')"
  shows "host_inv env good content cap ts'"
proof -
  have inv: "env_ok env good content cap" "host_ok good ts" "closing_free ts" using assms(1) by (simp_all add: host_inv_def)
  obtain h payload where p: "ParseTCPHeader packet spare = Ret (h, payload)"
    using assms(2) by (cases "ParseTCPHeader packet spare") (auto simp: HandleTCP_def)
  have s: "host_ok good ts' \<and> (case VFindTableEntry ts dst (DestPort h) src (SourcePort h) of
         None \<Rightarrow> ts' = ts \<and> err = Some ''entry not found''
       | Some (g, i) \<Rightarrow> err = None \<and> table_entries ts' = fsm_table h src (nextRef ts) i (table_entries ts))"
    using HandleTCP_safe [OF inv(1,2) p, where dst = dst and src = src] assms(2) by simp
  have "closing_free ts'"
  proof (cases "VFindTableEntry ts dst (DestPort h) src (SourcePort h)")
    case (Some q)
    obtain i where i: "q = (tgen ts, i)" "i < tlen ts" using VFind_Some [OF host_okD(1) [OF inv(2)] Some] by blast
    then show ?thesis
      using fsm_table_open [of i "table_entries ts" h src "nextRef ts"] s Some inv(3) length_table_entries [OF host_okD(1) [OF inv(2)]]
      by (simp add: closing_free_def)
  qed (use s inv(3) in simp)
  with s inv(1) show ?thesis by (simp add: host_inv_def)
qed

lemma VClose_inv:
  assumes "host_inv env good content cap ts" "VClose env r ts = Ret (err, ts')"
  shows "host_inv env good content cap ts'"
proof -
  have inv: "env_ok env good content cap" "host_ok good ts" "closing_free ts" using assms(1) by (simp_all add: host_inv_def)
  have ok: "host_ok good ts'" by (rule VClose_Ret [OF inv(1,2) assms(2)])
  obtain ns p where ns: "normals ts r = Some ns" "find_own ts ns = Some p"
    using assms(2) by (auto simp: VClose_def socket_of_def split: option.splits)
  have "closing_free ts'"
  proof (cases "State (deref ts p) \<in> {TCP_ESTABLISHED, TCP_CLOSE_WAIT}")
    case True
    obtain e ts1 where "VClose env r ts = Ret (map_option Msg e,
        if e = None then set_State p (close_state (State (deref ts p))) ts1 else ts1)" and q: "quiet good ts ts1"
      using VClose_open [OF inv(1,2) ns True] unfolding Let_def by blast
    then have run: "ts' = (if e = None then set_State p (close_state (State (deref ts p))) ts1 else ts1)"
      using assms(2) by simp
    obtain g i where p: "p = (g, i)" by (cases p)
    have "table_entries ts1 = table_entries ts" "slice_ok (tbl ts1)"
      using quiet_table [OF q] host_okD(1) [OF inv(2)] by simp_all
    then have "set (table_entries ts') \<subseteq> insert ((table_entries ts ! i)\<lparr>State := close_state (State (deref ts p))\<rparr>) (set (table_entries ts))"
      using set_State_entries [of ts1 g i] set_update_subset_insert [of "table_entries ts" i] by (auto simp: run p)
    then show ?thesis by (rule closing_free_cons [OF inv(3)]) (use True in \<open>auto simp: close_state_def\<close>)
  next
    case False
    then have "ts' = ts" using ns assms(2) by (simp add: VClose_def socket_of_def)
    with inv(3) show ?thesis by simp
  qed
  with ok inv(1) show ?thesis by (simp add: host_inv_def)
qed

lemma manager_inv:
  assumes inv: "host_inv env good content cap ts" and run: "manager_tick env r ts = Ret ts'"
  shows "host_inv env good content cap ts'"
proof -
  have env: "env_ok env good content cap" and ok: "host_ok good ts" using inv by (simp_all add: host_inv_def)
  obtain ns where ns: "normals ts r = Some ns"
    using run by (auto simp: manager_tick_def socket_of_def split: option.splits)
  let ?tm = "timer_expire (e_now env) (RTOtimer (so_snd ns))"
  let ?ts = "put_socket r (ns\<lparr>so_snd := so_snd ns\<lparr>RTOtimer := ?tm\<lparr>pending := False\<rparr>\<rparr>\<rparr>) ts"
  have q: "quiet good ts ?ts"
    by (rule put_socket_quiet) (use ns sock_good [OF ok ns] in \<open>auto simp: buffers_ok_def\<close>)
  note inv1 = host_inv_quiet [OF inv q]
  show ?thesis
  proof (cases "pending ?tm")
    case True
    then obtain err ts1 where r: "retransmitPacket env r ?ts = Ret (err, ts1)"
      and rest: "(if err \<noteq> None then mapG snd (VClose env r ts1) else Ret ts1) = Ret ts'"
      using run ns by (auto simp: manager_tick_def socket_of_def Let_def bindG_eq_Ret)
    have "quiet good ?ts ts1"
      using retransmit_safe [OF env quiet_host_ok [OF q ok], of r] r by (simp add: put_socket_def)
    then have "host_inv env good content cap ts1" by (rule host_inv_quiet [OF inv1])
    with rest show ?thesis by (auto simp: mapG_eq_Ret split: if_splits intro: VClose_inv)
  qed (use run ns inv in \<open>simp add: manager_tick_def socket_of_def Let_def\<close>)
qed

lemma sleeper_inv:
  assumes "host_inv env good content cap ts" "closer_wakes env i ts = Ret ts'"
  shows "host_inv env good content cap ts'"
proof (cases "i < length (closers ts) \<and> fst (closers ts ! i) \<le> e_now env")
  case True
  have ok: "host_ok good ts" and cf: "closing_free ts" using assms(1) by (simp_all add: host_inv_def)
  obtain t p where c: "closers ts ! i = (t, p)" by (cases "closers ts ! i") auto
  let ?ts = "ts\<lparr>closers := take i (closers ts) @ drop (Suc i) (closers ts)\<rparr>"
  have mem: "(t, p) \<in> set (closers ts)" using True c nth_mem by metis
  have "host_ok good ?ts"
    using ok by (auto simp: host_ok_def table_wf_def closers_ok_def socks_ok_def refs_ok_def dest: in_set_takeD in_set_dropD)
  moreover have "snd p < length (arrays ?ts (fst p))"
    using ok mem by (cases p) (auto simp: host_ok_def closers_ok_def)
  moreover have "close_at p ?ts = Ret ts'"
    using assms(2) True c by (simp add: closer_wakes_def close_at_def Let_def)
  ultimately have "host_ok good ts' \<and> set (table_entries ts') \<subseteq> set (table_entries ts)"
    using close_at_host_ok [of good ?ts p] by auto
  then have "host_ok good ts'" "closing_free ts'" using closing_free_subset [OF cf] by blast+
  then show ?thesis using assms(1) by (simp add: host_inv_def)
qed (use assms in \<open>auto simp: closer_wakes_def\<close>)

lemma connect_inv:
  assumes inv: "host_inv env good content cap ts" and run: "VConnect_start env ra rp ts = Ret (r, e, err, ts')"
  shows "host_inv env good content cap ts'"
proof -
  let ?ns = "new_client env (nextSID ts) (first_address env ts) (nextPort ts) ra rp"
  have "host_ok good ts'" "table_entries ts' = table_entries ts @ [client_entry ?ns (nextRef ts)]"
    using VConnect_start_run [of env good content cap ts ra rp] inv run by (auto simp: host_inv_def Let_def)
  then show ?thesis
    using inv closing_free_cons [of ts ts' "client_entry ?ns (nextRef ts)"] by (simp add: host_inv_def client_entry_def)
qed

lemma connect_end_inv:
  assumes inv: "host_inv env good content cap ts" and run: "VConnect_wait env pick r e since ts = Ret (err, ts')"
  shows "host_inv env good content cap ts'"
proof -
  have ok: "host_ok good ts" using inv by (simp add: host_inv_def)
  have "ts' = ts \<or> VDeleteTableEntry e ts = Ret ts'"
    using run by (auto simp: VConnect_wait_def bindG_eq_Ret mapG_eq_Ret Let_def split: if_splits)
  then have "host_ok good ts'" "set (table_entries ts') \<subseteq> set (table_entries ts)"
    using VDelete_host_ok [OF ok, of e] ok by auto
  then show ?thesis using inv closing_free_subset [of ts ts'] by (simp add: host_inv_def)
qed

lemma listen_inv:
  assumes inv: "host_inv env good content cap ts" and run: "VListen env port ts = (lr, ts')"
  shows "host_inv env good content cap ts'"
proof -
  let ?e = "\<lparr>LocalAddress = IPv4 0, LocalPort = port, RemoteAddress = IPv4 0, RemotePort = 0,
    State = TCP_LISTEN, SocketStruct = ListenRef (nextRef ts)\<rparr>"
  let ?ts = "ts\<lparr>nextSID := nextSID ts + 1, nextRef := nextRef ts + 1,
    listeners := (listeners ts)(nextRef ts \<mapsto> \<lparr>ls_SID = nextSID ts, ls_localPort = port, acceptQueue = []\<rparr>)\<rparr>"
  have env: "env_ok env good content cap" and ok: "host_ok good ts" using inv by (simp_all add: host_inv_def)
  have "ts' = VInsertTableEntry env ?e ?ts" using run by (auto simp: VListen_def generateSID_def Let_def)
  then have "table_entries ts' = table_entries ts @ [?e]"
    using VInsertTableEntry_table(1) [of ?ts env ?e] host_okD(1) [OF ok] env_okD(1) [OF env] by simp
  then have "closing_free ts'" using inv closing_free_cons [of ts ts' ?e] by (simp add: host_inv_def)
  then show ?thesis using VListen_host_ok [OF env ok, of port] run env by (simp add: host_inv_def)
qed

lemma writing_inv:
  "host_inv env good content cap ts \<Longrightarrow> writer_step env r w ts = Ret (w', ts') \<Longrightarrow> host_inv env good content cap ts'"
  using host_inv_quiet writer_quiet unfolding host_inv_def by blast

lemma read_inv:
  "host_inv env good content cap ts \<Longrightarrow> VRead env r n ts = Ret (bs, err, ts') \<Longrightarrow> host_inv env good content cap ts'"
  using host_inv_quiet VRead_Ret unfolding host_inv_def by blast

lemma reset_inv:
  "host_inv env good content cap ts \<Longrightarrow> sendRST env r ts = Ret (err, ts') \<Longrightarrow> host_inv env good content cap ts'"
  using host_inv_quiet sendRST_Ret unfolding host_inv_def by blast

lemma accept_inv:
  assumes "host_inv env good content cap ts" "VAccept lr ts = Ret (r, ts')"
  shows "host_inv env good content cap ts'"
proof -
  have "table_entries ts' = table_entries ts" using assms(2) by (auto simp: VAccept_def split: option.splits list.splits)
  then show ?thesis using assms VAccept_Ret by (auto simp: host_inv_def closing_free_def)
qed

lemma sending_file_inv:
  assumes inv: "host_inv env good content cap ts" and run: "VSendFile_step env r f ts = Ret (f', ts')"
  shows "host_inv env good content cap ts'"
proof (cases f)
  case (Reading cs e)
  then show ?thesis using run inv by (cases cs; cases e) (auto simp: mapG_eq_Ret split: if_splits)
next
  case (InWrite v cs e)
  show ?thesis
  proof (cases v)
    case (Returned x)
    then show ?thesis using run inv InWrite by (cases x) simp_all
  qed (use run writing_inv [OF inv] InWrite in \<open>fastforce simp: mapG_eq_Ret simp del: writer_step.simps\<close>)+
next
  case Draining
  then show ?thesis using run inv VClose_inv [OF inv] by (auto simp: bindG_eq_Ret mapG_eq_Ret split: if_splits)
qed (use run inv in simp)

lemma receiving_file_inv:
  assumes inv: "host_inv env good content cap ts" and run: "VReceiveFile_step env we r f ts = Ret (f', ts')"
  shows "host_inv env good content cap ts'"
proof (cases f)
  case (Receiving d)
  obtain s where s: "normals ts r = Some s" using run Receiving by (auto simp: socket_of_def split: option.splits)
  show ?thesis
  proof (cases "find_own ts s")
    case None
    then show ?thesis using run Receiving inv s by (simp add: socket_of_def)
  next
    case (Some p)
    show ?thesis
    proof (cases "State (deref ts p) = TCP_CLOSE_WAIT \<or> rb_Length (e_rb env) (rcv_buf (so_rcv s)) = 0")
      case True
      then show ?thesis using run Receiving inv s Some by (auto simp: socket_of_def split: if_splits)
    next
      case False
      then obtain bs err ts1 where v: "VRead env r 65535 ts = Ret (bs, err, ts1)"
        using run Receiving s Some by (cases "VRead env r 65535 ts") (auto simp: socket_of_def BUFFER_SIZE_def)
      then have "ts' = ts1"
        using run Receiving s Some False by (auto simp: socket_of_def BUFFER_SIZE_def split: option.splits if_splits)
      then show ?thesis using read_inv [OF inv v] by simp
    qed
  qed
qed (use run inv VClose_inv [OF inv] in \<open>auto simp: mapG_eq_Ret\<close>)

lemma host_step_inv:
  assumes "host_inv env good content cap ts" "host_step env ts ts'"
  shows "host_inv env good content cap ts'"
proof -
  have inv: "host_inv (at_time t env) good content cap ts" for t using assms(1) by simp
  note keeps = segment_inv [OF inv] connect_inv [OF inv] connect_end_inv [OF inv] listen_inv [OF inv] read_inv [OF inv]
    writing_inv [OF inv] VClose_inv [OF inv] reset_inv [OF inv] manager_inv [OF inv] sleeper_inv [OF inv]
    sending_file_inv [OF inv] receiving_file_inv [OF inv]
  show ?thesis using assms(2)
    by cases (drule keeps accept_inv [OF assms(1)]; (assumption | simp))+
qed

interpretation host: invariant_system "host_init env good content cap" "host_step env" "host_inv env good content cap"
  for env :: "'rb tcp_env" and good content cap
proof
  show "host_init env good content cap ts \<Longrightarrow> host_inv env good content cap ts" for ts by (rule init_host_inv)
  show "host_inv env good content cap ts \<Longrightarrow> host_step env ts ts' \<Longrightarrow> host_inv env good content cap ts'" for ts ts'
    by (rule host_step_inv)
qed

section \<open>The property\<close>


text \<open>A host that listens and has a connection attempt under way.\<close>

definition ex_start :: "list_rb TCPStack" where
  "ex_start = InitTCPStack ex_stack"

definition ex_listening :: "list_rb TCPStack" where
  "ex_listening = snd (VListen ex_env 80 ex_start)"

lemma ex_listening_reach: "reach (host_init ex_env list_rb_good fst snd) (host_step ex_env) ex_listening"
proof -
  have "at_time (1000 * Second) ex_env = ex_env" by (simp add: at_time_def ex_env_def)
  then have "host_step ex_env ex_start ex_listening"
    using host_step.listen [of "1000 * Second" ex_env 80 ex_start "fst (VListen ex_env 80 ex_start)"] by (simp add: ex_listening_def)
  moreover have "reach (host_init ex_env list_rb_good fst snd) (host_step ex_env) ex_start"
    by (rule reach_init) (use ex_env_ok ex_stack_ok in \<open>auto simp: host_init_def ex_start_def\<close>)
  ultimately show ?thesis by (rule reach_step [rotated])
qed


end
