(* ===== verification/Go_Strings.thy ===== *)
theory Go_Strings
  imports Prelude
begin

text \<open>
  What the program uses of Go's \<open>strings\<close>, \<open>strconv\<close>, \<open>bufio\<close> and \<open>fmt\<close> to read text.
  A string is the list of its bytes. Text is ASCII: a byte above 127 is not a space and not a digit
  (Go also takes a few Unicode characters as spaces). An error of \<open>strconv\<close> or \<open>fmt\<close> is \<open>None\<close>.
\<close>

section \<open>Splitting\<close>

definition is_space :: "char \<Rightarrow> bool" where
  "is_space c \<longleftrightarrow> (let n = of_char c :: nat in n = 32 \<or> (9 \<le> n \<and> n \<le> 13))"

text \<open>\<open>strings.Split\<close> with a separator of one byte.\<close>

fun split_on :: "(char \<Rightarrow> bool) \<Rightarrow> string \<Rightarrow> string list" where
  "split_on P [] = [[]]"
| "split_on P (c # cs) =
     (if P c then [] # split_on P cs
      else (case split_on P cs of [] \<Rightarrow> [[c]] | w # ws \<Rightarrow> (c # w) # ws))"

definition Fields :: "string \<Rightarrow> string list" where
  "Fields s = filter (\<lambda>w. w \<noteq> []) (split_on is_space s)"

text \<open>
  The lines a \<open>bufio.Scanner\<close> returns: split at newlines, a final carriage return dropped, no last
  empty line. A line that does not fit the scanner's buffer of 64 KiB ends the scan; the program
  never asks for the error.
\<close>

definition drop_cr :: "string \<Rightarrow> string" where
  "drop_cr s = (if s \<noteq> [] \<and> last s = CHR 0x0D then butlast s else s)"

definition scan_lines :: "string \<Rightarrow> string list" where
  "scan_lines s =
     (let ls = split_on (\<lambda>c. c = CHR 0x0A) s;
          ls = (if last ls = [] then butlast ls else ls)
      in map drop_cr (takeWhile (\<lambda>l. length l < 65536) ls))"

section \<open>Numbers\<close>

definition digit_of :: "char \<Rightarrow> nat option" where
  "digit_of c = (let n = of_char c in if 48 \<le> n \<and> n \<le> 57 then Some (n - 48) else None)"

fun digits :: "nat \<Rightarrow> string \<Rightarrow> nat option" where
  "digits acc [] = Some acc"
| "digits acc (c # cs) = (case digit_of c of None \<Rightarrow> None | Some d \<Rightarrow> digits (10 * acc + d) cs)"

text \<open>\<open>strconv.ParseUint\<close>, \<open>ParseInt\<close> in base 10, and \<open>Atoi\<close>.\<close>

definition ParseUint :: "nat \<Rightarrow> string \<Rightarrow> nat option" where
  "ParseUint b s =
     (if s = [] then None
      else (case digits 0 s of Some n \<Rightarrow> if n < 2 ^ b then Some n else None | None \<Rightarrow> None))"

definition ParseInt64 :: "string \<Rightarrow> int option" where
  "ParseInt64 s =
     (case s of
        [] \<Rightarrow> None
      | c # cs \<Rightarrow>
          (let neg = (c = CHR ''-'');
               body = (if c = CHR ''-'' \<or> c = CHR ''+'' then cs else s)
           in case ParseUint 64 body of
                None \<Rightarrow> None
              | Some n \<Rightarrow>
                  if neg then (if n \<le> 2 ^ 63 then Some (- int n) else None)
                  else (if n < 2 ^ 63 then Some (int n) else None)))"

abbreviation Atoi :: "string \<Rightarrow> int option" where "Atoi \<equiv> ParseInt64"

text \<open>Multiplication of \<open>int64\<close> values wraps.\<close>

definition int64 :: "int \<Rightarrow> int" where
  "int64 i = sint (word_of_int i :: 64 word)"

section \<open>Scanning with a format\<close>

text \<open>
  \<open>fmt.Fscanf\<close> on a line without newlines: literal text must match, a space of the format matches
  one or more spaces or the end of the input, \<open>%s\<close> skips spaces and takes the next word, which
  must not be empty. What follows the last verb is not read.
\<close>

datatype verb = Lit string | Gap | Word_s

fun Fscanf :: "verb list \<Rightarrow> string \<Rightarrow> string list option" where
  "Fscanf [] s = Some []"
| "Fscanf (Lit l # f) s = (if take (length l) s = l then Fscanf f (drop (length l) s) else None)"
| "Fscanf (Gap # f) s =
     (if s = [] \<or> is_space (hd s) then Fscanf f (dropWhile is_space s) else None)"
| "Fscanf (Word_s # f) s =
     (let s = dropWhile is_space s; w = takeWhile (\<lambda>c. \<not> is_space c) s
      in if w = [] then None else map_option ((#) w) (Fscanf f (dropWhile (\<lambda>c. \<not> is_space c) s)))"

section \<open>Printing numbers\<close>

definition show_digit :: "nat \<Rightarrow> char" where
  "show_digit d = char_of (d + 48)"

fun show_nat :: "nat \<Rightarrow> string" where
  "show_nat n = (if n < 10 then [show_digit n] else show_nat (n div 10) @ [show_digit (n mod 10)])"

declare show_nat.simps [simp del]

definition show_int :: "int \<Rightarrow> string" where
  "show_int i = (if i < 0 then CHR ''-'' # show_nat (nat (- i)) else show_nat (nat i))"

section \<open>Facts\<close>

subsection \<open>Words and lines\<close>

text \<open>A word: not empty, no spaces in it.\<close>

definition is_word :: "string \<Rightarrow> bool" where
  "is_word w \<longleftrightarrow> w \<noteq> [] \<and> (\<forall>c \<in> set w. \<not> is_space c)"

fun join :: "char \<Rightarrow> string list \<Rightarrow> string" where
  "join c [] = []"
| "join c [w] = w"
| "join c (w # v # ws) = w @ c # join c (v # ws)"

lemma is_space_blank [simp]: "is_space (CHR '' '')"
  by (simp add: is_space_def)

lemma split_on_nonempty [simp]: "split_on P s \<noteq> []"
  by (induction s) (auto split: list.splits)

lemma split_on_none: "(\<forall>c \<in> set w. \<not> P c) \<Longrightarrow> split_on P w = [w]"
  by (induction w) auto

lemma split_on_append: "(\<forall>c \<in> set w. \<not> P c) \<Longrightarrow> P x \<Longrightarrow> split_on P (w @ x # s) = w # split_on P s"
  by (induction w) auto

lemma split_on_join:
  "ws \<noteq> [] \<Longrightarrow> (\<forall>w \<in> set ws. \<forall>c \<in> set w. \<not> P c) \<Longrightarrow> P x \<Longrightarrow> split_on P (join x ws) = ws"
  by (induction x ws rule: join.induct) (simp_all add: split_on_none split_on_append)

lemma Fields_join: "(\<forall>w \<in> set ws. is_word w) \<Longrightarrow> Fields (join (CHR '' '') ws) = ws"
proof (cases "ws = []")
  case False
  assume w: "\<forall>w \<in> set ws. is_word w"
  have "split_on is_space (join (CHR '' '') ws) = ws"
    by (rule split_on_join [OF False]) (use w in \<open>auto simp: is_word_def\<close>)
  moreover have "filter (\<lambda>w. w \<noteq> []) ws = ws" using w by (simp add: filter_id_conv is_word_def)
  ultimately show ?thesis by (simp add: Fields_def)
qed (simp add: Fields_def)

lemma Fields_words: "w \<in> set (Fields s) \<Longrightarrow> is_word w"
proof -
  have "\<forall>w \<in> set (split_on P s). \<forall>c \<in> set w. \<not> P c" for P
    by (induction s) (auto split: list.splits)
  then show "w \<in> set (Fields s) \<Longrightarrow> is_word w" by (auto simp: Fields_def is_word_def)
qed

lemma takeWhile_word [simp]:
  assumes "is_word w"
  shows "takeWhile (\<lambda>c. \<not> is_space c) (w @ CHR '' '' # s) = w" "takeWhile (\<lambda>c. \<not> is_space c) w = w"
    "dropWhile (\<lambda>c. \<not> is_space c) (w @ CHR '' '' # s) = CHR '' '' # s" "dropWhile (\<lambda>c. \<not> is_space c) w = []"
    "dropWhile is_space (w @ s) = w @ s" "dropWhile is_space (CHR '' '' # w) = w" "w \<noteq> []"
proof -
  have w: "w \<noteq> []" "\<forall>c \<in> set w. \<not> is_space c" using assms by (simp_all add: is_word_def)
  show "takeWhile (\<lambda>c. \<not> is_space c) (w @ CHR '' '' # s) = w" "takeWhile (\<lambda>c. \<not> is_space c) w = w"
    "dropWhile (\<lambda>c. \<not> is_space c) (w @ CHR '' '' # s) = CHR '' '' # s" "dropWhile (\<lambda>c. \<not> is_space c) w = []"
    using w(2) by (simp_all add: takeWhile_append2 dropWhile_append2)
  show "dropWhile is_space (w @ s) = w @ s" "dropWhile is_space (CHR '' '' # w) = w" "w \<noteq> []"
    using w by (cases w; simp)+
qed

lemma split_on_lines:
  "(\<forall>l \<in> set ls. \<forall>c \<in> set l. \<not> P c) \<Longrightarrow> P x \<Longrightarrow> split_on P (concat (map (\<lambda>l. l @ [x]) ls)) = ls @ [[]]"
  by (induction ls) (simp_all add: split_on_append)

lemma scan_lines_text:
  assumes "\<forall>l \<in> set ls. length l < 65536 \<and> CHR 0x0A \<notin> set l \<and> CHR 0x0D \<notin> set l"
  shows "scan_lines (concat (map (\<lambda>l. l @ [CHR 0x0A]) ls)) = ls"
proof -
  have "split_on (\<lambda>c. c = CHR 0x0A) (concat (map (\<lambda>l. l @ [CHR 0x0A]) ls)) = ls @ [[]]"
    by (rule split_on_lines) (use assms in auto)
  moreover have "takeWhile (\<lambda>l. length l < 65536) ls = ls"
    using assms by (simp add: takeWhile_eq_all_conv)
  moreover have "map drop_cr ls = ls"
    by (rule map_idI) (use assms last_in_set in \<open>fastforce simp: drop_cr_def\<close>)
  ultimately show ?thesis unfolding scan_lines_def Let_def by (simp only: last_snoc butlast_snoc if_True refl)
qed

subsection \<open>Numbers\<close>

lemma digit_of_show [simp]: "d < 10 \<Longrightarrow> digit_of (show_digit d) = Some d"
  by (simp add: digit_of_def show_digit_def)

lemma is_space_show_digit [simp]: "d < 10 \<Longrightarrow> \<not> is_space (show_digit d)"
  by (simp add: is_space_def show_digit_def Let_def)

lemma digits_append: "digits a (s @ t) = (case digits a s of None \<Rightarrow> None | Some b \<Rightarrow> digits b t)"
  by (induction s arbitrary: a) (auto split: option.splits)

lemma digits_show: "digits 0 (show_nat n) = Some n"
proof (induction n rule: show_nat.induct)
  case (1 n)
  then show ?case by (subst show_nat.simps) (simp add: digits_append)
qed

lemma show_nat_digits: "c \<in> set (show_nat n) \<Longrightarrow> \<exists>d < 10. c = show_digit d"
proof (induction n rule: show_nat.induct)
  case (1 n)
  show ?case
  proof (cases "n < 10")
    case True
    with 1 show ?thesis using show_nat.simps [of n] by auto
  next
    case False
    with 1 have "c \<in> set (show_nat (n div 10)) \<or> c = show_digit (n mod 10)" using show_nat.simps [of n] by auto
    then show ?thesis
    proof
      assume "c = show_digit (n mod 10)"
      then show ?thesis by (intro exI [of _ "n mod 10"]) simp
    qed (rule 1(1) [OF False])
  qed
qed

lemma show_nat_word [simp]: "is_word (show_nat n)" "show_nat n \<noteq> []"
proof -
  show "show_nat n \<noteq> []" by (subst show_nat.simps) simp
  then show "is_word (show_nat n)" using show_nat_digits [of _ n] is_space_show_digit unfolding is_word_def by blast
qed

lemma ParseUint_show: "n < 2 ^ b \<Longrightarrow> ParseUint b (show_nat n) = Some n"
  by (simp add: ParseUint_def digits_show)

lemma show_nat_hd: "hd (show_nat n) \<noteq> CHR ''-'' \<and> hd (show_nat n) \<noteq> CHR ''+''"
proof -
  obtain d where "d < 10" "hd (show_nat n) = show_digit d"
    using show_nat_digits [of "hd (show_nat n)" n] by (auto dest: hd_in_set)
  then show ?thesis by (auto simp: show_digit_def char_of_eq_iff take_bit_nat_eq_self)
qed

lemma ParseInt_show:
  assumes "- (2 ^ 63) \<le> i" "i < 2 ^ 63"
  shows "ParseInt64 (show_int i) = Some i"
proof (cases "i < 0")
  case True
  then have "nat (- i) < 2 ^ 64" "nat (- i) \<le> 2 ^ 63" using assms(1) by (simp_all add: nat_le_iff nat_less_iff)
  with True show ?thesis by (simp add: ParseInt64_def show_int_def ParseUint_show)
next
  case False
  obtain c cs where s: "show_nat (nat i) = c # cs" by (cases "show_nat (nat i)") simp_all
  have "nat i < 2 ^ 64" "nat i < 2 ^ 63" using assms(2) False by (simp_all add: nat_less_iff)
  then show ?thesis
    using False s show_nat_hd [of "nat i"] ParseUint_show [of "nat i" 64] by (simp add: ParseInt64_def show_int_def)
qed

lemma show_int_word [simp]: "is_word (show_int i)"
  using show_nat_word(1) [of "nat (- i)"] show_nat_word(1) [of "nat i"]
  by (simp add: show_int_def is_word_def) (simp add: is_space_def)

lemma int64_id: "- (2 ^ 63) \<le> i \<Longrightarrow> i < 2 ^ 63 \<Longrightarrow> int64 i = i"
  by (simp add: int64_def sint_sbintrunc' signed_take_bit_int_eq_self)

end
