(* ===== verification/Netip_Parse.thy ===== *)
theory Netip_Parse
  imports Netip Go_Strings
begin

text \<open>
  The textual forms of \<open>net/netip\<close>: \<open>ParseAddr\<close>, \<open>ParsePrefix\<close> and \<open>ParseAddrPort\<close> as the
  standard library writes them, with \<open>None\<close> for any of their errors, and the printing of IPv4
  values. They are the language's library, so they have no entry in the source map.
\<close>

section \<open>IPv4\<close>

text \<open>The loop over the characters: the fields read, the value and the length of the current one.\<close>

fun ipv4_loop :: "nat list \<Rightarrow> nat \<Rightarrow> nat \<Rightarrow> string \<Rightarrow> nat list option" where
  "ipv4_loop fs val len [] = (if length fs < 3 then None else Some (fs @ [val]))"
| "ipv4_loop fs val len (c # cs) =
     (case digit_of c of
        Some d \<Rightarrow>
          if len = 1 \<and> val = 0 then None
          else if 255 < val * 10 + d then None
          else ipv4_loop fs (val * 10 + d) (len + 1) cs
      | None \<Rightarrow>
          if c = CHR ''.'' then
            (if len = 0 \<or> cs = [] then None
             else if length fs = 3 then None
             else ipv4_loop (fs @ [val]) 0 0 cs)
          else None)"

definition bytes_word :: "nat list \<Rightarrow> 'a::len word" where
  "bytes_word bs = foldl (\<lambda>w b. push_bit 8 w OR word_of_nat b) 0 bs"

definition parseIPv4 :: "string \<Rightarrow> Addr option" where
  "parseIPv4 s = map_option (\<lambda>fs. IPv4 (bytes_word fs)) (ipv4_loop [] 0 0 s)"

section \<open>IPv6\<close>

definition hex_val :: "char \<Rightarrow> nat option" where
  "hex_val c = (let n = of_char c in
     if 48 \<le> n \<and> n \<le> 57 then Some (n - 48)
     else if 97 \<le> n \<and> n \<le> 102 then Some (n - 87)
     else if 65 \<le> n \<and> n \<le> 70 then Some (n - 55) else None)"

definition hex_number :: "string \<Rightarrow> nat" where
  "hex_number ds = foldl (\<lambda>a c. 16 * a + the (hex_val c)) 0 ds"

text \<open>
  The loop over the groups: where the ellipsis stands, if it has been seen, the bytes so far and the
  rest of the text.
\<close>

function ipv6_loop :: "nat option \<Rightarrow> nat list \<Rightarrow> string \<Rightarrow> (nat option \<times> nat list \<times> string) option" where
  "ipv6_loop e ip s =
     (if 16 \<le> length ip then Some (e, ip, s)
      else
        (let ds = takeWhile (\<lambda>c. hex_val c \<noteq> None) s;
             rest = dropWhile (\<lambda>c. hex_val c \<noteq> None) s;
             ip' = ip @ [hex_number ds div 256, hex_number ds mod 256]
         in if ds = [] \<or> 4 < length ds then None
            else case rest of
              [] \<Rightarrow> Some (e, ip', [])
            | c # rest' \<Rightarrow>
                if c = CHR ''.'' then
                  (if e = None \<and> length ip \<noteq> 12 then None
                   else if 16 < length ip + 4 then None
                   else map_option (\<lambda>fs. (e, ip @ fs, [])) (ipv4_loop [] 0 0 s))
                else if c \<noteq> CHR '':'' \<or> rest' = [] then None
                else if hd rest' = CHR '':'' then
                  (if e \<noteq> None then None
                   else if tl rest' = [] then Some (Some (length ip'), ip', [])
                   else ipv6_loop (Some (length ip')) ip' (tl rest'))
                else ipv6_loop e ip' rest'))"
  by pat_completeness auto
termination by (relation "measure (\<lambda>(e, ip, s). 16 - length ip)") auto

declare ipv6_loop.simps [simp del]

text \<open>The ellipsis stands for the zeros that are missing, at least one.\<close>

definition expand :: "nat option \<times> nat list \<times> string \<Rightarrow> nat list option" where
  "expand r = (case r of (e, ip, s) \<Rightarrow>
     if s \<noteq> [] then None
     else if length ip < 16 then
       (case e of None \<Rightarrow> None | Some k \<Rightarrow> Some (take k ip @ replicate (16 - length ip) 0 @ drop k ip))
     else if e \<noteq> None then None else Some ip)"

definition cut_at :: "char \<Rightarrow> string \<Rightarrow> string \<times> string option" where
  "cut_at c s = (case dropWhile (\<lambda>x. x \<noteq> c) s of
     [] \<Rightarrow> (s, None) | _ # rest \<Rightarrow> (takeWhile (\<lambda>x. x \<noteq> c) s, Some rest))"

definition parseIPv6 :: "string \<Rightarrow> Addr option" where
  "parseIPv6 s0 =
     (case cut_at (CHR ''%'') s0 of (s, zone) \<Rightarrow>
        if zone = Some [] then None
        else
          (let z = (case zone of None \<Rightarrow> [] | Some z \<Rightarrow> z);
               lead = (take 2 s = ''::'')
           in if lead \<and> drop 2 s = [] then Some (IPv6 0 z)
              else
                (case ipv6_loop (if lead then Some 0 else None) [] (if lead then drop 2 s else s) of
                   None \<Rightarrow> None
                 | Some r \<Rightarrow> map_option (\<lambda>ip. IPv6 (bytes_word ip) z) (expand r))))"

section \<open>Addresses, prefixes, ports\<close>

definition ParseAddr :: "string \<Rightarrow> Addr option" where
  "ParseAddr s =
     (case dropWhile (\<lambda>c. c \<notin> {CHR ''.'', CHR '':'', CHR ''%''}) s of
        [] \<Rightarrow> None
      | c # _ \<Rightarrow> if c = CHR ''.'' then parseIPv4 s else if c = CHR '':'' then parseIPv6 s else None)"

text \<open>The text before and after the last occurrence of a character.\<close>

definition cut_last :: "char \<Rightarrow> string \<Rightarrow> (string \<times> string) option" where
  "cut_last c s = (case cut_at c (rev s) of (a, None) \<Rightarrow> None | (a, Some b) \<Rightarrow> Some (rev b, rev a))"

definition ParsePrefix :: "string \<Rightarrow> Prefix option" where
  "ParsePrefix s =
     (case cut_last (CHR ''/'') s of
        None \<Rightarrow> None
      | Some (a, bitsStr) \<Rightarrow>
          (case ParseAddr a of
             None \<Rightarrow> None
           | Some ip \<Rightarrow>
               if hasZone ip then None
               else if 1 < length bitsStr \<and> (digit_of (hd bitsStr) \<in> {None, Some 0}) then None
               else (case Atoi bitsStr of
                       None \<Rightarrow> None
                     | Some b \<Rightarrow> if b < 0 \<or> int (BitLen ip) < b then None else Some (PrefixFrom ip b))))"

definition ParseAddrPort :: "string \<Rightarrow> (Addr \<times> u16) option" where
  "ParseAddrPort s =
     (case cut_last (CHR '':'') s of
        None \<Rightarrow> None
      | Some (ip, port) \<Rightarrow>
          if ip = [] \<or> port = [] then None
          else if hd ip = CHR ''['' \<and> (length ip < 2 \<or> last ip \<noteq> CHR '']'') then None
          else
            (let v6 = (hd ip = CHR ''['');
                 ip = (if v6 then butlast (tl ip) else ip)
             in case (ParseUint 16 port, ParseAddr ip) of
                  (Some p, Some a) \<Rightarrow> if v6 = (BitLen a = 32) then None else Some (a, word_of_nat p)
                | _ \<Rightarrow> None))"

section \<open>Printing\<close>

definition addr_bytes :: "u32 \<Rightarrow> nat list" where
  "addr_bytes w = map (\<lambda>k. unat (ucast (drop_bit k w) :: byte)) [24, 16, 8, 0]"

definition show_ipv4 :: "u32 \<Rightarrow> string" where
  "show_ipv4 w = join (CHR ''.'') (map show_nat (addr_bytes w))"

definition show_prefix :: "u32 \<Rightarrow> nat \<Rightarrow> string" where
  "show_prefix w b = show_ipv4 w @ CHR ''/'' # show_nat b"

definition show_addr_port :: "u32 \<Rightarrow> u16 \<Rightarrow> string" where
  "show_addr_port w p = show_ipv4 w @ CHR '':'' # show_nat (unat p)"

section \<open>Round trips\<close>

lemma addr_bytes_lt: "b \<in> set (addr_bytes w) \<Longrightarrow> b < 256"
  using unsigned_less [where 'b = 8 and 'a = nat] by (auto simp: addr_bytes_def)

lemma bytes_addr [simp]: "bytes_word (addr_bytes w) = w"
proof (rule bit_word_eqI)
  fix k assume "k < LENGTH(32)"
  then consider "k < 8" | "8 \<le> k \<and> k < 16" | "16 \<le> k \<and> k < 24" | "24 \<le> k \<and> k < 32" by fastforce
  then show "bit (bytes_word (addr_bytes w) :: u32) k = bit w k"
    by cases (auto simp: bytes_word_def addr_bytes_def bit_or_iff bit_push_bit_iff bit_ucast_iff bit_drop_bit_eq)
qed

lemma show_nat_small:
  "n < 10 \<Longrightarrow> show_nat n = [show_digit n]"
  "10 \<le> n \<Longrightarrow> n < 100 \<Longrightarrow> show_nat n = [show_digit (n div 10), show_digit (n mod 10)]"
  "100 \<le> n \<Longrightarrow> n < 1000 \<Longrightarrow> show_nat n = [show_digit (n div 100), show_digit (n div 10 mod 10), show_digit (n mod 10)]"
proof -
  show one: "show_nat n = [show_digit n]" if "n < 10" for n using that by (subst show_nat.simps) simp
  show two: "show_nat n = [show_digit (n div 10), show_digit (n mod 10)]" if "10 \<le> n" "n < 100" for n
    using that one [of "n div 10"] by (subst show_nat.simps) simp
  show "show_nat n = [show_digit (n div 100), show_digit (n div 10 mod 10), show_digit (n mod 10)]" if "100 \<le> n" "n < 1000"
    using that two [of "n div 10"] by (subst show_nat.simps) (simp add: div_mult2_eq [symmetric])
qed

text \<open>The loop reads a printed field.\<close>

lemma ipv4_loop_field:
  assumes "n < 256"
  shows "\<exists>l. 0 < l \<and> ipv4_loop fs 0 0 (show_nat n @ s) = ipv4_loop fs n l s"
proof -
  consider "n < 10" | "10 \<le> n" "n < 100" | "100 \<le> n" "n < 256" using assms by linarith
  then show ?thesis
  proof cases
    case 1
    then show ?thesis by (intro exI [of _ 1]) (simp add: show_nat_small)
  next
    case 2
    then have "n div 10 * 10 + n mod 10 = n" "n div 10 < 10" "0 < n div 10" "n div 10 \<le> 255" by simp_all
    with 2 show ?thesis by (intro exI [of _ 2]) (simp add: show_nat_small numeral_2_eq_2)
  next
    case 3
    have eq: "n div 100 * 10 + n div 10 mod 10 = n div 10" using div_mult_mod_eq [of "n div 10" 10] by (simp add: div_mult2_eq [symmetric])
    with 3 have "(n div 100 * 10 + n div 10 mod 10) * 10 + n mod 10 = n" "n div 100 * 10 + n div 10 mod 10 \<le> 255"
      by simp_all
    moreover from 3 have "n div 100 < 10" "0 < n div 100" by simp_all
    moreover note 3
    ultimately    show ?thesis by (intro exI [of _ 3]) (simp add: show_nat_small numeral_3_eq_3)
  qed
qed

lemma digit_of_dot [simp]: "digit_of (CHR ''.'') = None"
  by (simp add: digit_of_def)

lemma ipv4_loop_show:
  assumes "a < 256" "b < 256" "c < 256" "d < 256"
  shows "ipv4_loop [] 0 0 (join (CHR ''.'') (map show_nat [a, b, c, d])) = Some [a, b, c, d]"
proof -
  have step: "ipv4_loop fs 0 0 (show_nat n @ CHR ''.'' # s) = ipv4_loop (fs @ [n]) 0 0 s"
    if "n < 256" "s \<noteq> []" "length fs \<noteq> 3" for fs n s
    using ipv4_loop_field [OF that(1), of fs "CHR ''.'' # s"] that(2,3) by auto
  have "ipv4_loop [a, b, c] 0 0 (show_nat d) = Some [a, b, c, d]"
    using ipv4_loop_field [OF assms(4), of "[a, b, c]" "[]"] by auto
  with assms(1-3) show ?thesis by (simp add: step)
qed

lemma not_separator: "d < 10 \<Longrightarrow> show_digit d \<notin> {CHR ''.'', CHR '':'', CHR ''%'', CHR ''/'', CHR ''[''}"
  by (auto simp: show_digit_def char_of_eq_iff take_bit_nat_eq_self)

lemma show_nat_separator: "c \<in> set (show_nat n) \<Longrightarrow> c \<notin> {CHR ''.'', CHR '':'', CHR ''%'', CHR ''/'', CHR ''[''}"
  by (drule show_nat_digits, elim exE conjE) (simp only: not_separator not_False_eq_True)

lemma show_ipv4_eq:
  "show_ipv4 w = show_nat (unat (ucast (drop_bit 24 w) :: byte)) @ CHR ''.'' # show_nat (unat (ucast (drop_bit 16 w) :: byte)) @
     CHR ''.'' # show_nat (unat (ucast (drop_bit 8 w) :: byte)) @ CHR ''.'' # show_nat (unat (ucast w :: byte))"
  by (simp add: show_ipv4_def addr_bytes_def)

lemma show_ipv4_chars: "c \<in> set (show_ipv4 w) \<Longrightarrow> c \<notin> {CHR '':'', CHR ''%'', CHR ''/'', CHR ''[''} \<and> \<not> is_space c"
proof -
  assume "c \<in> set (show_ipv4 w)"
  then consider "c = CHR ''.''" | n where "c \<in> set (show_nat n)" by (auto simp: show_ipv4_eq)
  then show ?thesis
  proof cases
    case 1
    then show ?thesis by (simp add: is_space_def)
  next
    case (2 n)
    then show ?thesis using show_nat_separator [of c n] show_nat_word(1) [of n] unfolding is_word_def by blast
  qed
qed

lemma show_ipv4_nonempty [simp]: "show_ipv4 w \<noteq> []"
  by (simp add: show_ipv4_eq)

lemma ParseAddr_show [simp]: "ParseAddr (show_ipv4 w) = Some (IPv4 w)"
proof -
  obtain c cs where d: "show_nat (unat (ucast (drop_bit 24 w) :: byte)) = c # cs"
    by (cases "show_nat (unat (ucast (drop_bit 24 w) :: byte))") simp_all
  have "dropWhile (\<lambda>c. c \<notin> {CHR ''.'', CHR '':'', CHR ''%''}) (show_ipv4 w) =
      CHR ''.'' # show_nat (unat (ucast (drop_bit 16 w) :: byte)) @ CHR ''.'' # show_nat (unat (ucast (drop_bit 8 w) :: byte)) @
      CHR ''.'' # show_nat (unat (ucast w :: byte))"
    unfolding show_ipv4_eq using show_nat_separator by (subst dropWhile_append2) auto
  moreover have "ipv4_loop [] 0 0 (show_ipv4 w) = Some (addr_bytes w)"
    using ipv4_loop_show [of "addr_bytes w ! 0" "addr_bytes w ! 1" "addr_bytes w ! 2" "addr_bytes w ! 3"] addr_bytes_lt [of _ w]
    by (simp add: show_ipv4_def addr_bytes_def)
  ultimately show ?thesis by (simp add: ParseAddr_def parseIPv4_def)
qed

lemma cut_last_append:
  assumes "c \<notin> set t"
  shows "cut_last c (s @ c # t) = Some (s, t)"
proof -
  have "dropWhile (\<lambda>x. x \<noteq> c) (rev t @ c # rev s) = c # rev s" "takeWhile (\<lambda>x. x \<noteq> c) (rev t @ c # rev s) = rev t"
    using assms by (auto simp: dropWhile_append takeWhile_append)
  then show ?thesis by (simp add: cut_last_def cut_at_def)
qed

lemma show_nat_canonical: "1 < length (show_nat n) \<Longrightarrow> digit_of (hd (show_nat n)) \<notin> {None, Some 0}"
proof (induction n rule: show_nat.induct)
  case (1 n)
  show ?case
  proof (cases "n < 10")
    case True
    with 1 show ?thesis by (simp add: show_nat_small)
  next
    case False
    then have eq: "show_nat n = show_nat (n div 10) @ [show_digit (n mod 10)]" by (subst show_nat.simps) simp
    show ?thesis
    proof (cases "n div 10 < 10")
      case True
      then show ?thesis using False eq by (simp add: show_nat_small)
    next
      case False
      then have "1 < length (show_nat (n div 10))" by (subst show_nat.simps) simp
      with 1(1) \<open>\<not> n < 10\<close> eq show ?thesis by simp
    qed
  qed
qed

lemma Atoi_show: "n < 2 ^ 63 \<Longrightarrow> Atoi (show_nat n) = Some (int n)"
  using ParseInt_show [of "int n"] by (simp add: show_int_def)

lemma ParsePrefix_show: "b \<le> 32 \<Longrightarrow> ParsePrefix (show_prefix w b) = Some (PrefixFrom (IPv4 w) (int b))"
  unfolding ParsePrefix_def show_prefix_def
  using show_nat_canonical [of b] show_nat_separator [of "CHR ''/''" b] Atoi_show [of b]
  by (subst cut_last_append) auto

lemma ParseAddrPort_show: "ParseAddrPort (show_addr_port w p) = Some (IPv4 w, p)"
proof -
  have "hd (show_ipv4 w) \<noteq> CHR ''[''" using show_ipv4_chars [of "hd (show_ipv4 w)" w] by auto
  moreover have "unat p < 2 ^ 16" using unsigned_less [of p] by simp
  moreover have "CHR '':'' \<notin> set (show_nat (unat p))" using show_nat_separator by blast
  ultimately show ?thesis
    by (simp add: ParseAddrPort_def show_addr_port_def cut_last_append ParseUint_show)
qed

lemma show_words [simp]: "is_word (show_ipv4 w)" "is_word (show_prefix w b)" "is_word (show_addr_port w p)"
proof -
  show w: "is_word (show_ipv4 w)" using show_ipv4_chars [of _ w] by (auto simp: is_word_def)
  have "\<not> is_space (CHR ''/'')" "\<not> is_space (CHR '':'')" by (simp_all add: is_space_def)
  then show "is_word (show_prefix w b)" "is_word (show_addr_port w p)"
    using w show_nat_word(1) by (auto simp: is_word_def show_prefix_def show_addr_port_def)
qed

end
