(* ===== verification/Lnx_Parser.thy ===== *)
theory Lnx_Parser
  imports Lnx_Types Netip_Parse
begin

text \<open>
  The configuration file parser (\<open>pkg/lnxconfig/lnxconfig.go\<close>): one function per directive, the
  table that selects it by the first word of a line, and the loop over the lines. A directive
  changes the configuration only when it succeeds, so each function returns the new one.
  \<^item> \<open>AtLine\<close> is the prefix that \<open>newErrString\<close> and \<open>newErr\<close> put before an error, \<open>Text\<close> a message,
    \<open>LibErr\<close> an error of the standard library, whose text is not modelled.
  \<^item> An index out of range is \<open>Panic\<close>.
\<close>

datatype cfg_error = AtLine nat cfg_error | Text string | LibErr | BadInteger | NoMatchingPrefix Prefix | NotANeighbor Addr

definition newErrString :: "nat \<Rightarrow> string \<Rightarrow> cfg_error" where
  "newErrString ln msg = AtLine ln (Text msg)"

definition newErr :: "nat \<Rightarrow> cfg_error \<Rightarrow> cfg_error" where
  "newErr ln err = AtLine ln err"

type_synonym ParseFunc = "nat \<Rightarrow> string \<Rightarrow> IPConfig \<Rightarrow> (cfg_error + IPConfig) go"

section \<open>The directive rip\<close>

definition addOriginatingPrefix :: "IPConfig \<Rightarrow> Prefix \<Rightarrow> cfg_error + IPConfig" where
  "addOriginatingPrefix config prefix =
     (if \<exists>iface \<in> set (cfg_Interfaces config). AssignedPrefix iface = prefix
      then Inr (config\<lparr>OriginatingPrefixes := OriginatingPrefixes config @ [prefix]\<rparr>)
      else Inl (NoMatchingPrefix prefix))"

definition addRipNeighbor :: "IPConfig \<Rightarrow> Addr \<Rightarrow> cfg_error + IPConfig" where
  "addRipNeighbor config neighbor =
     (if \<exists>iface \<in> set (cfg_Neighbors config). DestAddr iface = neighbor
      then Inr (config\<lparr>RipNeighbors := RipNeighbors config @ [neighbor]\<rparr>)
      else Inl (NotANeighbor neighbor))"

text \<open>The argument of a timing directive, in a unit of so many nanoseconds.\<close>

definition timing :: "nat \<Rightarrow> string \<Rightarrow> int \<Rightarrow> string list \<Rightarrow> (Duration \<Rightarrow> IPConfig) \<Rightarrow> cfg_error + IPConfig" where
  "timing ln usage unit args put =
     (if length args < 1 then Inl (newErrString ln usage)
      else
        (case ParseInt64 (args ! 0) of
           None \<Rightarrow> Inl (AtLine ln BadInteger)
         | Some val \<Rightarrow> Inr (put (int64 (val * unit)))))"

definition parseRip :: ParseFunc where
  "parseRip ln line config =
     (let tokens = Fields line
      in if length tokens < 2 then Ret (Inl (newErrString ln ''Usage:  rip [cmd] ...''))
         else
           (let cmd = tokens ! 1; ripTokens = drop 2 tokens
            in if cmd = ''originate'' then
                 (if ripTokens = [] then Panic
                  else if length ripTokens < 2 \<and> ripTokens ! 0 \<noteq> ''prefix''
                  then Ret (Inl (newErrString ln ''Usage:  rip originate prefix <prefix>''))
                  else if length ripTokens < 2 then Panic
                  else
                    (case ParsePrefix (ripTokens ! 1) of
                       None \<Rightarrow> Ret (Inl (newErr ln LibErr))
                     | Some ripPrefix \<Rightarrow> Ret (addOriginatingPrefix config (Masked ripPrefix))))
               else if cmd = ''advertise-to'' then
                 (if length ripTokens < 1
                  then Ret (Inl (newErrString ln ''Usage:  rip advertise-to <neighbor IP>''))
                  else
                    (case ParseAddr (ripTokens ! 0) of
                       None \<Rightarrow> Ret (Inl (newErr ln LibErr))
                     | Some addr \<Rightarrow> Ret (addRipNeighbor config addr)))
               else if cmd = ''periodic-update-rate'' then
                 Ret (timing ln ''Usage:  rip periodic-update-rate <milliseconds>'' 1000000 ripTokens
                        (\<lambda>d. config\<lparr>RipPeriodicUpdateRate := d\<rparr>))
               else if cmd = ''route-timeout-threshold'' then
                 Ret (timing ln ''Usage:  rip route-timeout-threshold <milliseconds>'' 1000000 ripTokens
                        (\<lambda>d. config\<lparr>RipTimeoutThreshold := d\<rparr>))
               else Ret (Inl (newErrString ln (''Unrecognized RIP command '' @ cmd)))))"

section \<open>The other directives\<close>

definition parseTcp :: ParseFunc where
  "parseTcp ln line config =
     Ret (let tokens = Fields line
      in if length tokens < 2 then Inl (newErrString ln ''Usage:  tcp [cmd] ...'')
         else
           (let cmd = tokens ! 1; argTokens = drop 2 tokens
            in if cmd = ''rto-min'' then
                 timing ln ''Usage:  tcp rto-min <microseconds>'' 1000 argTokens (\<lambda>d. config\<lparr>TcpRtoMin := d\<rparr>)
               else if cmd = ''rto-max'' then
                 timing ln ''Usage:  tcp rto-max <microseconds>'' 1000 argTokens (\<lambda>d. config\<lparr>TcpRtoMax := d\<rparr>)
               else Inl (newErrString ln (''Unrecognized RIP command '' @ cmd))))"

definition parseRouting :: ParseFunc where
  "parseRouting ln line config =
     Ret (let tokens = Fields line
      in if length tokens < 2
         then Inl (newErrString ln ''routing directive must have format:  routing <type>'')
         else
           (let rt = tokens ! 1
            in if rt = ''static'' then Inr (config\<lparr>cfg_RoutingMode := RoutingTypeStatic\<rparr>)
               else if rt = ''rip'' then Inr (config\<lparr>cfg_RoutingMode := RoutingTypeRIP\<rparr>)
               else Inl (newErrString ln (''Invalid routing type:  '' @ rt))))"

definition parseRoute :: ParseFunc where
  "parseRoute ln line config =
     Ret (case Fscanf [Lit ''route'', Gap, Word_s, Gap, Lit ''via'', Gap, Word_s] line of
        Some [sPrefix, sAddr] \<Rightarrow>
          (case ParsePrefix sPrefix of
             None \<Rightarrow> Inl LibErr
           | Some prefix \<Rightarrow>
               (case ParseAddr sAddr of
                  None \<Rightarrow> Inl LibErr
                | Some addr \<Rightarrow> Inr (config\<lparr>StaticRoutes := (StaticRoutes config)(prefix \<mapsto> addr)\<rparr>)))
      | _ \<Rightarrow> Inl LibErr)"

definition parseInterface :: ParseFunc where
  "parseInterface ln line config =
     Ret (case Fscanf [Lit ''interface'', Gap, Word_s, Gap, Word_s, Gap, Word_s] line of
        Some [sName, sPrefix, sBindAddr] \<Rightarrow>
          (case ParsePrefix sPrefix of
             None \<Rightarrow> Inl LibErr
           | Some prefix \<Rightarrow>
               (case ParseAddrPort sBindAddr of
                  None \<Rightarrow> Inl LibErr
                | Some addrPort \<Rightarrow>
                    Inr (config\<lparr>cfg_Interfaces := cfg_Interfaces config @
                      [\<lparr>cfg_Name = sName, AssignedIP = prefix_ip prefix, AssignedPrefix = Masked prefix,
                        cfg_UDPAddr = addrPort\<rparr>]\<rparr>)))
      | _ \<Rightarrow> Inl LibErr)"

definition parseNeighbor :: ParseFunc where
  "parseNeighbor ln line config =
     Ret (case Fscanf [Lit ''neighbor'', Gap, Word_s, Gap, Lit ''at'', Gap, Word_s, Gap, Lit ''via'', Gap, Word_s] line of
        Some [sDestAddr, sUDPAddr, sIfName] \<Rightarrow>
          (case ParseAddr sDestAddr of
             None \<Rightarrow> Inl LibErr
           | Some destAddr \<Rightarrow>
               (case ParseAddrPort sUDPAddr of
                  None \<Rightarrow> Inl LibErr
                | Some udpAddr \<Rightarrow>
                    Inr (config\<lparr>cfg_Neighbors := cfg_Neighbors config @
                      [\<lparr>DestAddr = destAddr, nb_UDPAddr = udpAddr, InterfaceName = sIfName\<rparr>]\<rparr>)))
      | _ \<Rightarrow> Inl LibErr)"

section \<open>The file\<close>

definition parseCommands :: "string \<rightharpoonup> ParseFunc" where
  "parseCommands = [''interface'' \<mapsto> parseInterface, ''neighbor'' \<mapsto> parseNeighbor, ''routing'' \<mapsto> parseRouting,
     ''route'' \<mapsto> parseRoute, ''rip'' \<mapsto> parseRip, ''tcp'' \<mapsto> parseTcp]"

text \<open>One line: skipped, or parsed by the function of its first word.\<close>

definition parse_line :: "nat \<Rightarrow> string \<Rightarrow> IPConfig \<Rightarrow> (cfg_error + IPConfig) go" where
  "parse_line ln line config =
     (case Fields line of
        [] \<Rightarrow> Ret (Inr config)
      | head # _ \<Rightarrow>
          if head = [] \<or> hd head = CHR ''#'' then Ret (Inr config)
          else
            (case parseCommands head of
               None \<Rightarrow> Ret (Inl (newErrString ln (''Unrecognized token '' @ head)))
             | Some pf \<Rightarrow>
                 mapG (\<lambda>r. case r of Inl err \<Rightarrow> Inl (newErr ln err) | Inr config \<Rightarrow> Inr config) (pf ln line config)))"

fun parse_lines :: "nat \<Rightarrow> string list \<Rightarrow> IPConfig \<Rightarrow> (cfg_error + IPConfig) go" where
  "parse_lines ln [] config = Ret (Inr config)"
| "parse_lines ln (line # ls) config =
     bindG (parse_line (ln + 1) line config) (\<lambda>r.
       case r of Inl err \<Rightarrow> Ret (Inl err) | Inr config \<Rightarrow> parse_lines (ln + 1) ls config)"

text \<open>\<open>file\<close> is the content of the file, or \<open>None\<close> when it cannot be opened.\<close>

definition ParseConfig :: "string option \<Rightarrow> (cfg_error + IPConfig) go" where
  "ParseConfig file =
     (case file of
        None \<Rightarrow> Ret (Inl (Text ''unable to open file''))
      | Some content \<Rightarrow> parse_lines 0 (scan_lines content) default_IPConfig)"

text \<open>The configuration the package provides for testing.\<close>

definition LnxConfig :: IPConfig where
  "LnxConfig =
     (let addr = (\<lambda>s. the (ParseAddr s)); pre = (\<lambda>s. the (ParsePrefix s)); port = (\<lambda>s. the (ParseAddrPort s))
      in \<lparr>cfg_Interfaces =
            [\<lparr>cfg_Name = ''if0'', AssignedIP = addr ''10.1.0.1'', AssignedPrefix = pre ''10.1.0.1/24'',
              cfg_UDPAddr = port ''127.0.0.1:5000''\<rparr>,
             \<lparr>cfg_Name = ''if1'', AssignedIP = addr ''10.10.1.1'', AssignedPrefix = pre ''10.10.1.1/24'',
              cfg_UDPAddr = port ''127.0.0.1:5001''\<rparr>],
          cfg_Neighbors =
            [\<lparr>DestAddr = addr ''10.1.0.10'', nb_UDPAddr = port ''127.0.0.1:6001'', InterfaceName = ''if0''\<rparr>,
             \<lparr>DestAddr = addr ''10.10.1.2'', nb_UDPAddr = port ''127.0.0.1:5100'', InterfaceName = ''if1''\<rparr>],
          cfg_RoutingMode = RoutingTypeStatic, RipNeighbors = [addr ''10.10.1.2''],
          StaticRoutes = Map.empty, OriginatingPrefixes = [],
          RipPeriodicUpdateRate = 5 * Second, RipTimeoutThreshold = 12 * Second,
          TcpRtoMin = 1000000, TcpRtoMax = 5 * Second\<rparr>)"

end
