(* ===== verification/Lnx_Props.thy ===== *)
theory Lnx_Props
  imports Lnx_Parser
begin

text \<open>
  The meaning of configuration files: what each directive does to the configuration, and that the
  parser does exactly this to every file made of well-formed directives; what every parsed
  configuration satisfies, whatever the file; and the lines that crash the program.
\<close>

section \<open>Directives\<close>

datatype directive =
  Interface_d string u32 nat u32 u16
| Neighbor_d u32 u32 u16 string
| Routing_d bool
| Route_d u32 nat u32
| Originate_d u32 nat
| Advertise_d u32
| Update_rate_d int
| Timeout_d int
| Rto_min_d int
| Rto_max_d int
| Comment_d string
| Blank_d

fun well_formed :: "directive \<Rightarrow> bool" where
  "well_formed (Interface_d name ip b u p) \<longleftrightarrow> is_word name \<and> b \<le> 32"
| "well_formed (Neighbor_d a u p name) \<longleftrightarrow> is_word name"
| "well_formed (Route_d a b v) \<longleftrightarrow> b \<le> 32"
| "well_formed (Originate_d a b) \<longleftrightarrow> b \<le> 32"
| "well_formed (Update_rate_d i) \<longleftrightarrow> - (2 ^ 63) \<le> i \<and> i < 2 ^ 63"
| "well_formed (Timeout_d i) \<longleftrightarrow> - (2 ^ 63) \<le> i \<and> i < 2 ^ 63"
| "well_formed (Rto_min_d i) \<longleftrightarrow> - (2 ^ 63) \<le> i \<and> i < 2 ^ 63"
| "well_formed (Rto_max_d i) \<longleftrightarrow> - (2 ^ 63) \<le> i \<and> i < 2 ^ 63"
| "well_formed (Comment_d s) \<longleftrightarrow> CHR 0x0A \<notin> set s \<and> CHR 0x0D \<notin> set s"
| "well_formed _ \<longleftrightarrow> True"

abbreviation unwords :: "string list \<Rightarrow> string" where "unwords \<equiv> join (CHR '' '')"

fun print_directive :: "directive \<Rightarrow> string" where
  "print_directive (Interface_d name ip b u p) = unwords [''interface'', name, show_prefix ip b, show_addr_port u p]"
| "print_directive (Neighbor_d a u p name) = unwords [''neighbor'', show_ipv4 a, ''at'', show_addr_port u p, ''via'', name]"
| "print_directive (Routing_d rip) = unwords [''routing'', if rip then ''rip'' else ''static'']"
| "print_directive (Route_d a b v) = unwords [''route'', show_prefix a b, ''via'', show_ipv4 v]"
| "print_directive (Originate_d a b) = unwords [''rip'', ''originate'', ''prefix'', show_prefix a b]"
| "print_directive (Advertise_d a) = unwords [''rip'', ''advertise-to'', show_ipv4 a]"
| "print_directive (Update_rate_d i) = unwords [''rip'', ''periodic-update-rate'', show_int i]"
| "print_directive (Timeout_d i) = unwords [''rip'', ''route-timeout-threshold'', show_int i]"
| "print_directive (Rto_min_d i) = unwords [''tcp'', ''rto-min'', show_int i]"
| "print_directive (Rto_max_d i) = unwords [''tcp'', ''rto-max'', show_int i]"
| "print_directive (Comment_d s) = CHR ''#'' # s"
| "print_directive Blank_d = []"

text \<open>What a directive on line \<open>ln\<close> does. Times are in milliseconds and microseconds.\<close>

fun meaning :: "nat \<Rightarrow> directive \<Rightarrow> IPConfig \<Rightarrow> cfg_error + IPConfig" where
  "meaning ln (Interface_d name ip b u p) c = Inr (c\<lparr>cfg_Interfaces := cfg_Interfaces c @
     [\<lparr>cfg_Name = name, AssignedIP = IPv4 ip, AssignedPrefix = Masked (PrefixFrom (IPv4 ip) (int b)),
       cfg_UDPAddr = (IPv4 u, p)\<rparr>]\<rparr>)"
| "meaning ln (Neighbor_d a u p name) c = Inr (c\<lparr>cfg_Neighbors := cfg_Neighbors c @
     [\<lparr>DestAddr = IPv4 a, nb_UDPAddr = (IPv4 u, p), InterfaceName = name\<rparr>]\<rparr>)"
| "meaning ln (Routing_d rip) c = Inr (c\<lparr>cfg_RoutingMode := if rip then RoutingTypeRIP else RoutingTypeStatic\<rparr>)"
| "meaning ln (Route_d a b v) c = Inr (c\<lparr>StaticRoutes := (StaticRoutes c)(PrefixFrom (IPv4 a) (int b) \<mapsto> IPv4 v)\<rparr>)"
| "meaning ln (Originate_d a b) c =
     (let p = Masked (PrefixFrom (IPv4 a) (int b))
      in if p \<in> AssignedPrefix ` set (cfg_Interfaces c)
         then Inr (c\<lparr>OriginatingPrefixes := OriginatingPrefixes c @ [p]\<rparr>)
         else Inl (AtLine ln (NoMatchingPrefix p)))"
| "meaning ln (Advertise_d a) c =
     (if IPv4 a \<in> DestAddr ` set (cfg_Neighbors c)
      then Inr (c\<lparr>RipNeighbors := RipNeighbors c @ [IPv4 a]\<rparr>)
      else Inl (AtLine ln (NotANeighbor (IPv4 a))))"
| "meaning ln (Update_rate_d i) c = Inr (c\<lparr>RipPeriodicUpdateRate := int64 (i * 1000000)\<rparr>)"
| "meaning ln (Timeout_d i) c = Inr (c\<lparr>RipTimeoutThreshold := int64 (i * 1000000)\<rparr>)"
| "meaning ln (Rto_min_d i) c = Inr (c\<lparr>TcpRtoMin := int64 (i * 1000)\<rparr>)"
| "meaning ln (Rto_max_d i) c = Inr (c\<lparr>TcpRtoMax := int64 (i * 1000)\<rparr>)"
| "meaning ln (Comment_d s) c = Inr c"
| "meaning ln Blank_d c = Inr c"

fun meanings :: "nat \<Rightarrow> directive list \<Rightarrow> IPConfig \<Rightarrow> cfg_error + IPConfig" where
  "meanings ln [] c = Inr c"
| "meanings ln (d # ds) c = bindE (meaning (ln + 1) d c) (meanings (ln + 1) ds)"

section \<open>Single lines\<close>

lemma literal_words [simp]:
  "is_word ''interface''" "is_word ''neighbor''" "is_word ''at''" "is_word ''via''" "is_word ''routing''"
  "is_word ''rip''" "is_word ''static''" "is_word ''route''" "is_word ''originate''" "is_word ''prefix''"
  "is_word ''advertise-to''" "is_word ''periodic-update-rate''" "is_word ''route-timeout-threshold''"
  "is_word ''tcp''" "is_word ''rto-min''" "is_word ''rto-max''"
  by (simp_all add: is_word_def is_space_def)

text \<open>A format of literals and words separated by gaps, and the words it reads.\<close>

fun pattern :: "string option list \<Rightarrow> verb list" where
  "pattern [] = []"
| "pattern [x] = [case x of Some l \<Rightarrow> Lit l | None \<Rightarrow> Word_s]"
| "pattern (x # y # r) = (case x of Some l \<Rightarrow> Lit l | None \<Rightarrow> Word_s) # Gap # pattern (y # r)"

lemma dropWhile_unwords: "is_word w \<Longrightarrow> dropWhile is_space (unwords (w # ws)) = unwords (w # ws)"
  using takeWhile_word(5) [of w "[]"] takeWhile_word(5) [of w "CHR '' '' # unwords ws"] by (cases ws) simp_all

lemma Fscanf_pattern:
  assumes "list_all2 (\<lambda>x w. is_word w \<and> (case x of Some l \<Rightarrow> w = l | None \<Rightarrow> True)) xs ws"
  shows "Fscanf (pattern xs) (unwords ws) = Some (map snd (filter (\<lambda>(x, w). x = None) (zip xs ws)))"
  using assms
proof (induction xs arbitrary: ws rule: pattern.induct)
  case (2 x)
  then obtain w where w: "ws = [w]" "is_word w" "case x of Some l \<Rightarrow> w = l | None \<Rightarrow> True"
    by (auto simp: list_all2_Cons1)
  have "dropWhile is_space w = w" using takeWhile_word(5) [OF w(2), of "[]"] by simp
  with w show ?case by (cases x) (simp_all add: Let_def)
next
  case (3 x y r)
  then obtain w v vs where w: "ws = w # v # vs" "is_word w" "case x of Some l \<Rightarrow> w = l | None \<Rightarrow> True" "is_word v"
    by (auto simp: list_all2_Cons1)
  have IH: "Fscanf (pattern (y # r)) (unwords (v # vs)) = Some (map snd (filter (\<lambda>(x, w). x = None) (zip (y # r) (v # vs))))"
    by (rule 3) (use 3 w(1) in simp)
  have gap: "Fscanf (Gap # pattern (y # r)) (CHR '' '' # unwords (v # vs)) = Fscanf (pattern (y # r)) (unwords (v # vs))"
    using dropWhile_unwords [OF w(4), of vs] by simp
  show ?case
  proof (cases x)
    case None
    then show ?thesis
      using w(1,2) gap IH takeWhile_word(1,3,5) [OF w(2)] by (simp add: Let_def del: Fscanf.simps(3))
  next
    case (Some l)
    then show ?thesis using w(1,3) gap IH by (simp del: Fscanf.simps(3))
  qed
qed simp

lemma Fields_unwords: "list_all is_word ws \<Longrightarrow> Fields (unwords ws) = ws"
  by (rule Fields_join) (simp add: list_all_iff)

lemma Fields_comment: "\<exists>w ws. Fields (CHR ''#'' # s) = (CHR ''#'' # w) # ws"
proof -
  obtain u us where "split_on is_space s = u # us" by (cases "split_on is_space s") auto
  moreover have "\<not> is_space (CHR ''#'')" by (simp add: is_space_def)
  ultimately show ?thesis by (simp add: Fields_def)
qed

text \<open>A line of the file with a single line function.\<close>

lemma parse_words:
  assumes "list_all is_word (w # ws)" "parseCommands w = Some pf" "hd w \<noteq> CHR ''#''"
  shows "parse_line ln (unwords (w # ws)) c =
    mapG (\<lambda>r. case r of Inl err \<Rightarrow> Inl (newErr ln err) | Inr config \<Rightarrow> Inr config) (pf ln (unwords (w # ws)) c)"
  using assms Fields_unwords [OF assms(1)] by (simp add: parse_line_def is_word_def)

lemma parseCommands_simps [simp]:
  "parseCommands ''interface'' = Some parseInterface" "parseCommands ''neighbor'' = Some parseNeighbor"
  "parseCommands ''routing'' = Some parseRouting" "parseCommands ''route'' = Some parseRoute"
  "parseCommands ''rip'' = Some parseRip" "parseCommands ''tcp'' = Some parseTcp"
  by (simp_all add: parseCommands_def)

lemma prefix_ip_PrefixFrom [simp]: "prefix_ip (PrefixFrom (IPv4 a) b) = IPv4 a"
  by (simp add: PrefixFrom_def)

lemma parse_print:
  assumes "well_formed d"
  shows "parse_line ln (print_directive d) c = Ret (meaning ln d c)"
  using assms
proof (cases d)
  case (Interface_d name ip b u p)
  then have "list_all is_word [''interface'', name, show_prefix ip b, show_addr_port u p]" using assms by simp
  moreover have "Fscanf [Lit ''interface'', Gap, Word_s, Gap, Word_s, Gap, Word_s]
      (unwords [''interface'', name, show_prefix ip b, show_addr_port u p]) = Some [name, show_prefix ip b, show_addr_port u p]"
    using Fscanf_pattern [of "[Some ''interface'', None, None, None]" "[''interface'', name, show_prefix ip b, show_addr_port u p]"]
      assms Interface_d by (simp del: Fscanf.simps join.simps)
  ultimately show ?thesis
    using assms by (simp add: Interface_d parse_words parseInterface_def ParsePrefix_show ParseAddrPort_show del: Fscanf.simps join.simps)
next
  case (Neighbor_d a u p name)
  let ?ws = "[''neighbor'', show_ipv4 a, ''at'', show_addr_port u p, ''via'', name]"
  have "list_all is_word ?ws" using assms Neighbor_d by simp
  moreover have "Fscanf [Lit ''neighbor'', Gap, Word_s, Gap, Lit ''at'', Gap, Word_s, Gap, Lit ''via'', Gap, Word_s] (unwords ?ws) =
      Some [show_ipv4 a, show_addr_port u p, name]"
    using Fscanf_pattern [of "[Some ''neighbor'', None, Some ''at'', None, Some ''via'', None]" ?ws]
      assms Neighbor_d by (simp del: Fscanf.simps join.simps)
  ultimately show ?thesis
    by (simp add: Neighbor_d parse_words parseNeighbor_def ParseAddrPort_show del: Fscanf.simps join.simps)
next
  case (Route_d a b v)
  let ?ws = "[''route'', show_prefix a b, ''via'', show_ipv4 v]"
  have "list_all is_word ?ws" by simp
  moreover have "Fscanf [Lit ''route'', Gap, Word_s, Gap, Lit ''via'', Gap, Word_s] (unwords ?ws) = Some [show_prefix a b, show_ipv4 v]"
    using Fscanf_pattern [of "[Some ''route'', None, Some ''via'', None]" ?ws] by (simp del: Fscanf.simps join.simps)
  ultimately show ?thesis
    using assms by (simp add: Route_d parse_words parseRoute_def ParsePrefix_show del: Fscanf.simps join.simps)
next
  case (Comment_d s)
  obtain w ws where "Fields (CHR ''#'' # s) = (CHR ''#'' # w) # ws" using Fields_comment by blast
  then show ?thesis by (simp add: Comment_d parse_line_def)
next
  case Blank_d
  then show ?thesis by (simp add: parse_line_def Fields_def)
qed (simp_all add: parse_words parseRip_def parseTcp_def parseRouting_def Fields_unwords ParsePrefix_show ParseInt_show
      timing_def addOriginatingPrefix_def addRipNeighbor_def newErr_def image_iff Bex_def Let_def eq_commute del: join.simps)

section \<open>Files\<close>

definition file_of :: "directive list \<Rightarrow> string" where
  "file_of ds = concat (map (\<lambda>d. print_directive d @ [CHR 0x0A]) ds)"

lemma parse_lines_print:
  "list_all well_formed ds \<Longrightarrow> parse_lines ln (map print_directive ds) c = Ret (meanings ln ds c)"
proof (induction ds arbitrary: ln c)
  case (Cons d ds)
  then show ?case by (cases "meaning (ln + 1) d c") (simp_all add: parse_print)
qed simp

lemma word_chars: "is_word w \<Longrightarrow> c \<in> set w \<Longrightarrow> c \<noteq> CHR 0x0A \<and> c \<noteq> CHR 0x0D"
  by (auto simp: is_word_def is_space_def)

lemma set_join: "set (join c ws) \<subseteq> insert c (\<Union> (set ` set ws))"
  by (induction c ws rule: join.induct) auto

lemma unwords_chars: "list_all is_word ws \<Longrightarrow> CHR 0x0A \<notin> set (unwords ws) \<and> CHR 0x0D \<notin> set (unwords ws)"
  using set_join [of "CHR '' ''" ws] word_chars by (fastforce simp: list_all_iff)

lemma print_no_newline: "well_formed d \<Longrightarrow> CHR 0x0A \<notin> set (print_directive d) \<and> CHR 0x0D \<notin> set (print_directive d)"
proof (cases d)
  case (Comment_d s)
  then show "well_formed d \<Longrightarrow> ?thesis" by simp
next
  case (Routing_d rip)
  then show ?thesis using unwords_chars [of "[''routing'', if rip then ''rip'' else ''static'']"] by simp
qed (simp_all add: unwords_chars del: join.simps)

lemma parse_file:
  assumes "list_all well_formed ds" "\<forall>d \<in> set ds. length (print_directive d) < 65536"
  shows "ParseConfig (Some (file_of ds)) = Ret (meanings 0 ds default_IPConfig)"
proof -
  have "scan_lines (file_of ds) = map print_directive ds"
    using scan_lines_text [of "map print_directive ds"] assms print_no_newline
    by (simp add: file_of_def comp_def list_all_iff)
  then show ?thesis using parse_lines_print [OF assms(1)] by (simp add: ParseConfig_def)
qed

text \<open>
  C35. The parser implements the configuration language. For every file made of well-formed
  directives, one to a line and of lines that fit the scanner's buffer, \<open>ParseConfig\<close> returns what
  the directives mean, applied in order to the default configuration: the configuration they
  build, or the error of the first line that originates an unknown prefix or advertises to an
  unknown neighbour.
\<close>

theorem config_file_meaning:
  assumes "list_all well_formed ds" "\<forall>d \<in> set ds. length (print_directive d) < 65536"
  shows "ParseConfig (Some (file_of ds)) = Ret (meanings 0 ds default_IPConfig)"
  using assms by (rule parse_file)

definition ex_directives :: "directive list" where
  "ex_directives = [Comment_d '' host'', Interface_d ''if0'' 0x0a000001 24 0x7f000001 5000,
     Neighbor_d 0x0a000002 0x7f000001 5001 ''if0'', Routing_d True, Advertise_d 0x0a000002, Update_rate_d 5000,
     Route_d 0 0 0x0a000002, Advertise_d 0x0a000003]"

theorem config_file_meaning_witness:
  "ParseConfig (Some (file_of ex_directives)) = Ret (Inl (AtLine 8 (NotANeighbor (IPv4 0x0a000003))))"
proof -
  have "list_all well_formed ex_directives" by (simp add: ex_directives_def is_word_def is_space_def)
  moreover have "\<forall>d \<in> set ex_directives. length (print_directive d) < 65536"
    by (simp add: ex_directives_def show_prefix_def show_addr_port_def show_ipv4_eq show_nat.simps show_int_def)
  moreover have "meanings 0 ex_directives default_IPConfig = Inl (AtLine 8 (NotANeighbor (IPv4 0x0a000003)))"
    by (simp add: ex_directives_def default_IPConfig_def)
  ultimately show ?thesis using config_file_meaning [of ex_directives] by simp
qed

section \<open>Lines that crash the program\<close>

definition crashing :: "string \<Rightarrow> bool" where
  "crashing line \<longleftrightarrow> Fields line \<in> {[''rip'', ''originate''], [''rip'', ''originate'', ''prefix'']}"

lemma parseRip_Panic:
  "parseRip ln line c = Panic \<longleftrightarrow> 2 \<le> length (Fields line) \<and> Fields line ! 1 = ''originate'' \<and>
     drop 2 (Fields line) \<in> {[], [''prefix'']}"
proof (cases "drop 2 (Fields line)")
  case (Cons w ws)
  then have "2 \<le> length (Fields line)" using drop_all [of "Fields line" 2] by (cases "2 \<le> length (Fields line)") simp_all
  with Cons show ?thesis
    by (cases ws) (auto simp: parseRip_def Let_def split: option.splits if_splits simp del: nth_drop)
qed (auto simp: parseRip_def Let_def simp del: nth_drop)

lemma parseRip_Block: "parseRip ln line c \<noteq> Block"
  by (simp add: parseRip_def Let_def split: option.split)

lemma others_return [simp]:
  "\<exists>r. parseTcp ln line c = Ret r" "\<exists>r. parseRouting ln line c = Ret r" "\<exists>r. parseRoute ln line c = Ret r"
  "\<exists>r. parseInterface ln line c = Ret r" "\<exists>r. parseNeighbor ln line c = Ret r"
  by (simp_all add: parseTcp_def parseRouting_def parseRoute_def parseInterface_def parseNeighbor_def)

lemma parse_function:
  "parseCommands w = Some pf \<Longrightarrow> (w = ''rip'' \<and> pf = parseRip) \<or> (w \<noteq> ''rip'' \<and> (\<exists>r. pf ln line c = Ret r))"
  by (auto simp: parseCommands_def split: if_splits)

lemma crashing_iff: "crashing line \<longleftrightarrow> (\<exists>ws. Fields line = ''rip'' # ''originate'' # ws \<and> ws \<in> {[], [''prefix'']})"
  by (auto simp: crashing_def)

lemma parse_line_Panic: "parse_line ln line c = Panic \<longleftrightarrow> crashing line"
proof (cases "Fields line")
  case Nil
  then show ?thesis by (simp add: parse_line_def crashing_def)
next
  case (Cons w ws)
  have "parseRip ln line c = Panic \<longleftrightarrow> (\<exists>us. ws = ''originate'' # us \<and> us \<in> {[], [''prefix'']})"
    unfolding parseRip_Panic Cons by (cases ws) auto
  then show ?thesis
    using Cons parse_function [of w _ ln line c] by (cases "parseCommands w") (auto simp: parse_line_def crashing_iff)
qed

lemma parse_line_returns: "parse_line ln line c \<noteq> Block"
proof (cases "Fields line")
  case (Cons w ws)
  then show ?thesis
    using parse_function [of w _ ln line c] parseRip_Block [of ln line c]
    by (cases "parseCommands w") (auto simp: parse_line_def)
qed (simp add: parse_line_def)

lemma parse_lines_Panic:
  "parse_lines ln ls c = Panic \<longleftrightarrow>
     (\<exists>k < length ls. \<exists>c'. parse_lines ln (take k ls) c = Ret (Inr c') \<and> crashing (ls ! k))"
proof (induction ls arbitrary: ln c)
  case (Cons l ls)
  show ?case
  proof (cases "parse_line (ln + 1) l c")
    case (Ret r)
    then have l: "\<not> crashing l" using parse_line_Panic [of "ln + 1" l c] by simp
    show ?thesis
    proof (cases r)
      case (Inl e)
      have "\<not> (\<exists>c'. parse_lines ln (take k (l # ls)) c = Ret (Inr c') \<and> crashing ((l # ls) ! k))" for k
        by (cases k) (use l Ret Inl in simp_all)
      then show ?thesis using Ret Inl by auto
    next
      case (Inr c1)
      have "(\<exists>k < length (l # ls). \<exists>c'. parse_lines ln (take k (l # ls)) c = Ret (Inr c') \<and> crashing ((l # ls) ! k)) \<longleftrightarrow>
          (\<exists>k < length ls. \<exists>c'. parse_lines (ln + 1) (take k ls) c1 = Ret (Inr c') \<and> crashing (ls ! k))"
        unfolding Ex_less_Suc2 length_Cons using l Ret Inr by simp
      then show ?thesis using Cons.IH [of "ln + 1" c1] Ret Inr by simp
    qed
  next
    case Panic
    then have "crashing l" using parse_line_Panic [of "ln + 1" l c] by simp
    then show ?thesis using Panic by (auto intro: exI [of _ 0])
  qed (use parse_line_returns in blast)
qed simp

text \<open>
  C36. Which files crash the parser. \<open>ParseConfig\<close> always returns or panics, and it panics exactly on
  the files in which a line \<open>rip originate\<close> or \<open>rip originate prefix\<close>, without its argument, follows
  lines that parse: the guard of this directive is an \<open>&&\<close> that indexes the missing word.
\<close>

theorem parse_panics_on_originate:
  "(ParseConfig (Some s) = Panic \<longleftrightarrow>
     (\<exists>k < length (scan_lines s). \<exists>c. parse_lines 0 (take k (scan_lines s)) default_IPConfig = Ret (Inr c) \<and>
        crashing (scan_lines s ! k)))
   \<and> (ParseConfig (Some s) = Panic \<or> returns (ParseConfig (Some s)))"
proof -
  have "parse_lines ln ls c \<noteq> Block" for ln ls c
  proof (induction ls arbitrary: ln c)
    case (Cons l ls)
    then show ?case
      using parse_line_returns [of "ln + 1" l c] by (cases "parse_line (ln + 1) l c") (auto split: sum.splits)
  qed simp
  then show ?thesis
    using parse_lines_Panic [of 0 "scan_lines s" default_IPConfig]
    by (cases "ParseConfig (Some s)") (auto simp: ParseConfig_def)
qed

section \<open>Every parsed configuration\<close>

text \<open>
  What holds of a configuration that was read from a file, whatever its text: names are words,
  every interface's prefix is the masked one of its address and contains it, static routes have a
  valid prefix and a next hop, and the RIP sections only name what the file configures.
\<close>

definition interface_ok :: "InterfaceConfig \<Rightarrow> bool" where
  "interface_ok i \<longleftrightarrow> is_word (cfg_Name i) \<and> AssignedIP i \<noteq> NoAddr \<and> \<not> hasZone (AssignedIP i) \<and>
     IsValid (AssignedPrefix i) \<and> Masked (AssignedPrefix i) = AssignedPrefix i \<and>
     Contains (AssignedPrefix i) (AssignedIP i) \<and> fst (cfg_UDPAddr i) \<noteq> NoAddr"

definition config_ok :: "IPConfig \<Rightarrow> bool" where
  "config_ok c \<longleftrightarrow> list_all interface_ok (cfg_Interfaces c) \<and>
     (\<forall>nb \<in> set (cfg_Neighbors c). is_word (InterfaceName nb) \<and> DestAddr nb \<noteq> NoAddr \<and> fst (nb_UDPAddr nb) \<noteq> NoAddr) \<and>
     set (RipNeighbors c) \<subseteq> DestAddr ` set (cfg_Neighbors c) \<and>
     set (OriginatingPrefixes c) \<subseteq> AssignedPrefix ` set (cfg_Interfaces c) \<and>
     finite (dom (StaticRoutes c)) \<and> (\<forall>p \<in> dom (StaticRoutes c). IsValid p) \<and>
     NoAddr \<notin> ran (StaticRoutes c)"

lemma ParseAddr_valid: "ParseAddr s = Some a \<Longrightarrow> a \<noteq> NoAddr"
  by (auto simp: ParseAddr_def parseIPv4_def parseIPv6_def Let_def split: list.splits if_splits prod.splits option.splits)

lemma ParseAddrPort_valid: "ParseAddrPort s = Some a \<Longrightarrow> fst a \<noteq> NoAddr"
  using ParseAddr_valid by (auto simp: ParseAddrPort_def Let_def split: option.splits if_splits)

lemma ParsePrefix_valid:
  assumes "ParsePrefix s = Some p"
  shows "IsValid p" "prefix_ip p \<noteq> NoAddr" "\<not> hasZone (prefix_ip p)" "Bits p \<le> int (BitLen (prefix_ip p))"
proof -
  obtain str bits where cut: "cut_last (CHR ''/'') s = Some (str, bits)"
    using assms by (auto simp: ParsePrefix_def split: option.splits)
  then obtain ip where ip: "ParseAddr str = Some ip" "\<not> hasZone ip"
    using assms by (auto simp: ParsePrefix_def split: option.splits if_splits)
  then obtain b where "Atoi bits = Some b" "0 \<le> b" "b \<le> int (BitLen ip)" "p = PrefixFrom ip b"
    using assms cut by (auto simp: ParsePrefix_def split: option.splits if_splits)
  moreover have "withoutZone ip = ip" using \<open>\<not> hasZone ip\<close> by (cases ip) auto
  ultimately show "IsValid p" "prefix_ip p \<noteq> NoAddr" "\<not> hasZone (prefix_ip p)" "Bits p \<le> int (BitLen (prefix_ip p))"
    using ParseAddr_valid [OF ip(1)] ip(2) by (auto simp: PrefixFrom_def IsValid_def Bits_def)
qed

lemma drop_push_drop: "drop_bit k (push_bit k (drop_bit k w)) = drop_bit k (w :: 'a::len word)"
  by (rule bit_word_eqI) (auto simp: bit_drop_bit_eq bit_push_bit_iff dest: bit_imp_le_length)

lemma drop_xor_push: "drop_bit k (w XOR push_bit k (drop_bit k w)) = (0 :: 'a::len word)"
  by (simp add: drop_bit_xor drop_push_drop)

lemma Masked_ok:
  assumes "IsValid p" "prefix_ip p \<noteq> NoAddr" "\<not> hasZone (prefix_ip p)"
  shows "IsValid (Masked p) \<and> Masked (Masked p) = Masked p \<and> Contains (Masked p) (prefix_ip p)"
proof (cases p)
  case (Prefix ip b)
  with assms show ?thesis
    by (cases ip) (simp_all add: Masked_def Contains_def IsValid_def Bits_def drop_push_drop drop_xor_push)
qed

lemma Fscanf_words: "Fscanf f s = Some ws \<Longrightarrow> list_all is_word ws"
proof (induction f s arbitrary: ws rule: Fscanf.induct)
  case (4 f s)
  let ?s = "dropWhile is_space s"
  obtain us where us: "takeWhile (\<lambda>c. \<not> is_space c) ?s \<noteq> []" "ws = takeWhile (\<lambda>c. \<not> is_space c) ?s # us"
    "Fscanf f (dropWhile (\<lambda>c. \<not> is_space c) ?s) = Some us"
    using 4(2) by (auto simp: Let_def split: if_splits)
  moreover have "list_all is_word us" using 4(1) us by blast
  moreover have "is_word (takeWhile (\<lambda>c. \<not> is_space c) ?s)" using us(1) by (auto simp: is_word_def dest: set_takeWhileD)
  ultimately show ?case by simp
qed (auto split: if_splits)

lemma timing_ok: "timing ln usage u args f = Inr c' \<Longrightarrow> (\<And>d. P (f d)) \<Longrightarrow> P c'"
  by (auto simp: timing_def split: if_splits option.splits)

lemma default_config_ok: "config_ok default_IPConfig"
  by (simp add: config_ok_def default_IPConfig_def)

lemma config_ok_timings:
  assumes "config_ok c"
  shows "config_ok (c\<lparr>RipPeriodicUpdateRate := d\<rparr>)" "config_ok (c\<lparr>RipTimeoutThreshold := d\<rparr>)"
    "config_ok (c\<lparr>TcpRtoMin := d\<rparr>)" "config_ok (c\<lparr>TcpRtoMax := d\<rparr>)" "config_ok (c\<lparr>cfg_RoutingMode := m\<rparr>)"
  using assms by (simp_all add: config_ok_def)

lemma parseRip_ok: "config_ok c \<Longrightarrow> parseRip ln line c = Ret (Inr c') \<Longrightarrow> config_ok c'"
proof -
  have "config_ok c \<Longrightarrow> addOriginatingPrefix c p = Inr c' \<Longrightarrow> config_ok c'"
    "config_ok c \<Longrightarrow> addRipNeighbor c a = Inr c' \<Longrightarrow> config_ok c'" for p a
    by (auto simp: addOriginatingPrefix_def addRipNeighbor_def config_ok_def split: if_splits)
  then show "config_ok c \<Longrightarrow> parseRip ln line c = Ret (Inr c') \<Longrightarrow> config_ok c'"
    by (auto simp: parseRip_def Let_def config_ok_timings split: if_splits option.splits elim: timing_ok)
qed

lemma parse_simple_ok:
  "config_ok c \<Longrightarrow> parseTcp ln line c = Ret (Inr c') \<Longrightarrow> config_ok c'"
  "config_ok c \<Longrightarrow> parseRouting ln line c = Ret (Inr c') \<Longrightarrow> config_ok c'"
  by (auto simp: parseTcp_def parseRouting_def Let_def config_ok_timings split: if_splits elim: timing_ok)

lemma parseRoute_ok:
  assumes "config_ok c" "parseRoute ln line c = Ret (Inr c')"
  shows "config_ok c'"
proof -
  obtain p a s u where "c' = c\<lparr>StaticRoutes := (StaticRoutes c)(p \<mapsto> a)\<rparr>" "ParsePrefix s = Some p" "ParseAddr u = Some a"
    using assms(2) by (auto simp: parseRoute_def split: option.splits list.splits)
  with assms(1) show ?thesis using ParsePrefix_valid(1) ParseAddr_valid by (auto simp: config_ok_def ran_def split: if_splits)
qed

lemma parseInterface_ok:
  assumes "config_ok c" "parseInterface ln line c = Ret (Inr c')"
  shows "config_ok c'"
proof -
  obtain n s u p a where f: "Fscanf [Lit ''interface'', Gap, Word_s, Gap, Word_s, Gap, Word_s] line = Some [n, s, u]"
    and p: "ParsePrefix s = Some p" "ParseAddrPort u = Some a"
    and c': "c' = c\<lparr>cfg_Interfaces := cfg_Interfaces c @
      [\<lparr>cfg_Name = n, AssignedIP = prefix_ip p, AssignedPrefix = Masked p, cfg_UDPAddr = a\<rparr>]\<rparr>"
    using assms(2) unfolding parseInterface_def go.inject by (auto split: option.splits list.splits)
  have "is_word n" using Fscanf_words [OF f] by simp
  then have "interface_ok \<lparr>cfg_Name = n, AssignedIP = prefix_ip p, AssignedPrefix = Masked p, cfg_UDPAddr = a\<rparr>"
    using ParsePrefix_valid [OF p(1)] Masked_ok [of p] ParseAddrPort_valid [OF p(2)] by (simp add: interface_ok_def)
  then show ?thesis using assms(1) by (auto simp: config_ok_def c')
qed

lemma parseNeighbor_ok:
  assumes "config_ok c" "parseNeighbor ln line c = Ret (Inr c')"
  shows "config_ok c'"
proof -
  obtain s u n a p where f: "Fscanf [Lit ''neighbor'', Gap, Word_s, Gap, Lit ''at'', Gap, Word_s, Gap, Lit ''via'', Gap, Word_s] line =
      Some [s, u, n]"
    and p: "ParseAddr s = Some a" "ParseAddrPort u = Some p"
    and c': "c' = c\<lparr>cfg_Neighbors := cfg_Neighbors c @ [\<lparr>DestAddr = a, nb_UDPAddr = p, InterfaceName = n\<rparr>]\<rparr>"
    using assms(2) unfolding parseNeighbor_def go.inject by (auto split: option.splits list.splits)
  then show ?thesis
    using assms(1) Fscanf_words [OF f] ParseAddr_valid [OF p(1)] ParseAddrPort_valid [OF p(2)]
    by (auto simp: config_ok_def c')
qed

lemma wrapped_Inr: "(case r of Inl e \<Rightarrow> Inl (f e) | Inr x \<Rightarrow> Inr x) = Inr y \<longleftrightarrow> r = Inr y"
  by (cases r) auto

lemma parse_line_ok: "config_ok c \<Longrightarrow> parse_line ln line c = Ret (Inr c') \<Longrightarrow> config_ok c'"
proof -
  assume c: "config_ok c" "parse_line ln line c = Ret (Inr c')"
  have "config_ok c'" if "parseCommands w = Some pf" "pf ln line c = Ret (Inr c')" for w pf
  proof -
    have "pf \<in> {parseInterface, parseNeighbor, parseRouting, parseRoute, parseRip, parseTcp}"
      using that(1) by (auto simp: parseCommands_def split: if_splits)
    then show ?thesis
      using that(2) parseRip_ok [OF c(1)] parse_simple_ok [OF c(1)] parseRoute_ok [OF c(1)]
        parseInterface_ok [OF c(1)] parseNeighbor_ok [OF c(1)]
      by blast
  qed
  then show ?thesis
    using c by (auto simp: parse_line_def mapG_eq_Ret wrapped_Inr eq_commute [of "Inr c'"] split: list.splits if_splits option.splits)
qed

lemma parse_lines_ok: "config_ok c \<Longrightarrow> parse_lines ln ls c = Ret (Inr c') \<Longrightarrow> config_ok c'"
proof (induction ls arbitrary: ln c)
  case (Cons l ls)
  then obtain c1 where "parse_line (ln + 1) l c = Ret (Inr c1)" "parse_lines (ln + 1) ls c1 = Ret (Inr c')"
    by (cases "parse_line (ln + 1) l c") (auto split: sum.splits)
  with Cons show ?case using parse_line_ok by blast
qed simp

lemma ParseConfig_ok: "ParseConfig file = Ret (Inr c) \<Longrightarrow> config_ok c"
  using parse_lines_ok [OF default_config_ok] by (auto simp: ParseConfig_def split: option.splits)

end
