(* ===== verification/IP_Repl.thy ===== *)
theory IP_Repl
  imports IP_Stack Netip_Parse
begin

text \<open>
  The IP command line (\<open>pkg/ipstack/repl.go\<close>). What is printed is a value that holds what the
  \<open>Printf\<close> call is given. The two loops over maps take their orders as arguments.
  \<^item> \<open>Repl_line\<close> is one turn of \<open>Repl\<close>, which splits the line at every blank; \<open>IP_ReplInput\<close> is
    \<open>ReplInput\<close>, which takes the words of the line and knows \<open>iphelp\<close>.
  \<^item> \<open>commands[0]\<close> and \<open>commands[1]\<close> out of range are \<open>Panic\<close>.
\<close>

datatype ip_out =
  Line string
| InterfaceLine string Addr string
| NeighborLine string Addr AddrPort
| LocalLine Prefix string
| StaticLine Prefix Addr
| RouteLine string Prefix Addr int
| TestPacketLine Addr Addr u8 "byte list"

datatype 's turn = Continue "ip_out list" "ip_effect option" 's | Quit

text \<open>The commands that list. \<open>nord\<close> is the order in which a map of neighbours is visited.\<close>

definition interfaces_in :: "IPStack \<Rightarrow> order \<Rightarrow> Interface list" where
  "interfaces_in s ord = concat (map (\<lambda>n. case Interfaces s n of Some i \<Rightarrow> [i] | None \<Rightarrow> []) ord)"

definition list_interfaces :: "IPStack \<Rightarrow> order \<Rightarrow> ip_out list" where
  "list_interfaces s ord = Line ''Name Addr/Prefix State'' #
     map (\<lambda>i. InterfaceLine (Name i) (IPAddr i) (if Down i then ''down'' else ''up'')) (interfaces_in s ord)"

definition list_neighbors :: "IPStack \<Rightarrow> order \<Rightarrow> (string \<Rightarrow> Addr list) \<Rightarrow> ip_out list" where
  "list_neighbors s ord nord = Line ''Iface VIP UDPAddr'' #
     concat (map (\<lambda>i.
       if Down i then []
       else concat (map (\<lambda>a. case Neighbors i a of None \<Rightarrow> [] | Some u \<Rightarrow> [NeighborLine (Name i) a u])
              (nord (Name i)))) (interfaces_in s ord))"

definition list_routes :: "IPStack \<Rightarrow> ip_out list" where
  "list_routes s = Line ''T Prefix Next hop Cost'' #
     map (\<lambda>entry.
       if Source entry = SourceLocal then LocalLine (DestinationPrefix entry) (Interface entry)
       else if Source entry = SourceStatic then StaticLine (DestinationPrefix entry) (NextHop entry)
       else RouteLine ''R'' (DestinationPrefix entry) (NextHop entry) (Metric entry))
       (ForwardingTable s)"

text \<open>The commands \<open>down\<close> and \<open>up\<close>: the first interface with this name.\<close>

definition set_down :: "IPStack \<Rightarrow> order \<Rightarrow> bool \<Rightarrow> string \<Rightarrow> IPStack" where
  "set_down s ord d ifname =
     (case find_iface s ord (\<lambda>i. Name i = ifname) of
        None \<Rightarrow> s
      | Some n \<Rightarrow> s\<lparr>Interfaces := (Interfaces s)(n := map_option (\<lambda>i. i\<lparr>Down := d\<rparr>) (Interfaces s n))\<rparr>)"

definition bytes_of :: "string \<Rightarrow> byte list" where
  "bytes_of s = map of_char s"

definition send_command ::
  "ip_lib \<Rightarrow> order \<Rightarrow> order \<Rightarrow> string list \<Rightarrow> IPStack \<Rightarrow> IPStack turn go" where
  "send_command lib ord1 ord2 commands s =
     (if length commands < 2 then Panic
      else
        (case ParseAddr (commands ! 1) of
           None \<Rightarrow> Ret (Continue [Line ''Error parsing address''] None s)
         | Some dst \<Rightarrow>
             if length commands < 3 then Ret (Continue [Line ''Usage: send <addr> <message ...>''] None s)
             else mapG (\<lambda>r. case r of
                      Inl err \<Rightarrow> Continue [Line ''Error sending packet''] None s
                    | Inr eff \<Rightarrow> Continue [] (Some eff) s)
                    (SendIP lib ord1 ord2 s dst TEST_PROTOCOL (16 + 1)
                       (bytes_of (join (CHR '' '') (drop 2 commands))))))"

definition ip_command ::
  "ip_lib \<Rightarrow> order \<Rightarrow> order \<Rightarrow> (string \<Rightarrow> Addr list) \<Rightarrow> string list \<Rightarrow> IPStack \<Rightarrow> IPStack turn go option" where
  "ip_command lib ord1 ord2 nord commands s =
     (let cmd = commands ! 0
      in if cmd = ''li'' then Some (Ret (Continue (list_interfaces s ord1) None s))
         else if cmd = ''ln'' then Some (Ret (Continue (list_neighbors s ord1 nord) None s))
         else if cmd = ''lr'' then Some (Ret (Continue (list_routes s) None s))
         else if cmd = ''down'' then
           Some (Ret (if length commands \<noteq> 2 then Continue [Line ''Usage: down <ifname>''] None s
                else Continue [] None (set_down s ord1 True (commands ! 1))))
         else if cmd = ''up'' then
           Some (Ret (if length commands \<noteq> 2 then Continue [Line ''Usage: up <ifname>''] None s
                else Continue [] None (set_down s ord1 False (commands ! 1))))
         else if cmd = ''send'' then Some (send_command lib ord1 ord2 commands s)
         else if cmd = ''exit'' then Some (Ret Quit)
         else None)"

definition Repl_line ::
  "ip_lib \<Rightarrow> order \<Rightarrow> order \<Rightarrow> (string \<Rightarrow> Addr list) \<Rightarrow> string \<Rightarrow> IPStack \<Rightarrow> IPStack turn go" where
  "Repl_line lib ord1 ord2 nord line s =
     (case ip_command lib ord1 ord2 nord (split_on (\<lambda>c. c = CHR '' '') line) s of
        Some r \<Rightarrow> r
      | None \<Rightarrow> Ret (Continue [Line ''Unknown command''] None s))"

definition iphelp :: "ip_out list" where
  "iphelp = map Line [''IP commands:'', ''li: List interfaces'', ''ln: List neighbors'', ''lr: List routes'',
     ''down <ifname>: Disable an interface'', ''up <ifname>: Enable an interface'',
     ''send <addr> <message ...>: Send a test packet'', ''exit: Quit process'']"

definition IP_ReplInput ::
  "ip_lib \<Rightarrow> order \<Rightarrow> order \<Rightarrow> (string \<Rightarrow> Addr list) \<Rightarrow> string \<Rightarrow> IPStack \<Rightarrow> IPStack turn go" where
  "IP_ReplInput lib ord1 ord2 nord line s =
     (let commands = Fields line
      in if commands = [] then Panic
         else case ip_command lib ord1 ord2 nord commands s of
           Some r \<Rightarrow> r
         | None \<Rightarrow>
             Ret (Continue (if commands ! 0 = ''iphelp'' then iphelp else [Line ''Unknown command'']) None s))"

text \<open>The handler of test packets.\<close>

definition run_PrintPacket :: "IPPacket \<Rightarrow> ip_out" where
  "run_PrintPacket packet = TestPacketLine (SourceIP packet) (DestinationIP packet) (TTL packet) (Payload packet)"

section \<open>Facts\<close>

text \<open>Switching an interface off or on changes nothing but its flag.\<close>

lemma set_down_fields [simp]:
  "ForwardingTable (set_down s ord d n) = ForwardingTable s" "stackConfig (set_down s ord d n) = stackConfig s"
  "Handlers (set_down s ord d n) = Handlers s"
  by (simp_all add: set_down_def split: option.split)

lemma set_down_dom [simp]: "dom (Interfaces (set_down s ord d n)) = dom (Interfaces s)"
  by (auto simp: set_down_def split: option.splits if_splits)

lemma set_down_Some:
  "Interfaces (set_down s ord d n) m = Some i \<Longrightarrow>
   \<exists>j. Interfaces s m = Some j \<and> (i = j \<or> i = j\<lparr>Down := d\<rparr>)"
  by (auto simp: set_down_def split: option.splits if_splits)

lemma routes_ok_dom: "dom (Interfaces s') = dom (Interfaces s) \<Longrightarrow> routes_ok s' e = routes_ok s e"
  by (auto simp: routes_ok_def)

lemma set_down_stack_ok: "stack_ok s \<Longrightarrow> stack_ok (set_down s ord d n)"
proof -
  assume s: "stack_ok s"
  have "Name i = m" if "Interfaces (set_down s ord d n) m = Some i" for m i
    using set_down_Some [OF that] s by (auto simp: stack_ok_def)
  then show ?thesis using s routes_ok_dom [OF set_down_dom [of s ord d n]] by (simp add: stack_ok_def)
qed

lemma set_down_order [simp]: "order_of (set_down s ord d n) o1 = order_of s o1"
  by (simp add: order_of_def)

text \<open>A command either leaves the node alone or switches an interface; \<open>send\<close> alone panics.\<close>

lemma send_command_state: "send_command lib o1 o2 cs s = Ret (Continue out eff s') \<Longrightarrow> s' = s"
proof -
  have "(case r of Inl err \<Rightarrow> Continue x None s | Inr eff \<Rightarrow> Continue [] (Some eff) s) = Continue out eff s' \<Longrightarrow> s' = s"
    for r x by (cases r) auto
  then show "send_command lib o1 o2 cs s = Ret (Continue out eff s') \<Longrightarrow> s' = s"
    by (auto simp: send_command_def mapG_eq_Ret eq_commute [of "Continue out eff s'"] split: if_split_asm option.split_asm)
qed

lemma ip_command_state:
  assumes "ip_command lib o1 o2 nord cs s = Some (Ret (Continue out eff s'))"
  shows "s' = s \<or> (\<exists>d. s' = set_down s o1 d (cs ! 1))"
  using assms
  by (auto simp: ip_command_def Let_def dest: send_command_state split: if_split_asm)

lemma ip_command_Panic:
  assumes "stack_ok s" "marshals lib" "cs \<noteq> []"
  shows "ip_command lib o1 o2 nord cs s = Some Panic \<longleftrightarrow> cs = [''send'']"
proof -
  have "SendIP lib o1 o2 s dst pr ttl data \<noteq> Panic" for dst pr ttl data
    using SendIP_returns [OF assms(1,2)] by (metis returns_simps(2))
  then have "send_command lib o1 o2 cs s = Panic \<longleftrightarrow> length cs < 2"
    by (auto simp: send_command_def split: option.splits if_splits)
  moreover have "length cs < 2 \<and> cs ! 0 = ''send'' \<longleftrightarrow> cs = [''send'']"
    using assms(3) by (cases cs) auto
  ultimately show ?thesis by (auto simp: ip_command_def Let_def split: if_splits)
qed

lemma split_send: "split_on (\<lambda>c. c = CHR '' '') line = [''send''] \<longleftrightarrow> line = ''send''"
proof
  have "split_on P s = [w] \<Longrightarrow> s = w" for P :: "char \<Rightarrow> bool" and s w
    by (induction s arbitrary: w) (auto split: if_splits list.splits)
  then show "split_on (\<lambda>c. c = CHR '' '') line = [''send''] \<Longrightarrow> line = ''send''" by blast
qed simp

lemma Repl_line_Panic:
  "stack_ok s \<Longrightarrow> marshals lib \<Longrightarrow> Repl_line lib o1 o2 nord line s = Panic \<longleftrightarrow> line = ''send''"
  using ip_command_Panic [of s lib "split_on (\<lambda>c. c = CHR '' '') line" o1 o2 nord]
  by (auto simp: Repl_line_def split_send split: option.splits)

lemma Repl_line_state:
  "Repl_line lib o1 o2 nord line s = Ret (Continue out eff s') \<Longrightarrow> s' = s \<or> (\<exists>d n. s' = set_down s o1 d n)"
  using ip_command_state [of lib o1 o2 nord "split_on (\<lambda>c. c = CHR '' '') line" s out eff s']
  by (auto simp: Repl_line_def split: option.splits)

end
