(* ===== verification/Spec2Isabelle.thy ===== *)
theory Spec2Isabelle
  imports Prelude Netip Go_Slice Forwarding RIP_Packet Lnx_Types IP_Packet IP_Stack IP_Example
    IP_Props RIP_Routing RIP_Props RIP_Timers TCP_Packet TCP_Types TCP_Table TCP_Example
    TCP_Table_Props TCP_Retransmission TCP_Retransmission_Props TCP_Handle
    TCP_Safety TCP_States TCP_Reassembly
    TCP_Socket TCP_Socket_Safety TCP_Writer TCP_Writer_Props TCP_Window Transitions TCP_Transfer TCP_Host
    Go_Strings Netip_Parse Lnx_Parser Lnx_Props IP_Repl Router
begin

text \<open>
  A verification library for a user-space TCP/IP stack with RIP routing.
\<close>

end
